theory Spec2Isabelle
  imports Main
begin

section \<open>Strings\<close>

text \<open>
  Go strings are UTF-8 byte sequences; \<^verbatim>\<open>splitSQLStatements\<close> converts its argument
  to \<^verbatim>\<open>[]rune\<close> and works on Unicode code points. A rune is modelled as a natural
  number (its code point) and a string as the list of its runes. For ASCII text the
  runes are the bytes; \<open>runes\<close> turns an Isabelle string literal into such a list.
\<close>

type_synonym rune = nat
type_synonym gostring = "rune list"

definition runes :: "string \<Rightarrow> gostring" where
  "runes s = map of_char s"

abbreviation (input) rn :: "char \<Rightarrow> rune" where
  "rn c \<equiv> of_char c"

text \<open>
  \<^verbatim>\<open>unicode.IsSpace\<close>: in Latin-1 the runes \<^verbatim>\<open>\t \n \v \f \r\<close>, space, U+0085 and
  U+00A0; beyond it the code points with the White_Space property.
\<close>

definition isSpace :: "rune \<Rightarrow> bool" where
  "isSpace r \<longleftrightarrow>
     (9 \<le> r \<and> r \<le> 13) \<or> r = 32 \<or> r = 133 \<or> r = 160 \<or> r = 5760 \<or>
     (8192 \<le> r \<and> r \<le> 8202) \<or> r = 8232 \<or> r = 8233 \<or> r = 8239 \<or> r = 8287 \<or>
     r = 12288"

text \<open>\<^verbatim>\<open>strings.TrimSpace\<close>: all leading and trailing white space removed.\<close>

definition TrimSpace :: "gostring \<Rightarrow> gostring" where
  "TrimSpace s = rev (dropWhile isSpace (rev (dropWhile isSpace s)))"

section \<open>The statement splitter\<close>

text \<open>
  The local variables of \<^verbatim>\<open>splitSQLStatements\<close> (main.go, lines 579--582):
  the statements emitted so far, the buffer \<^verbatim>\<open>current\<close> and the four mode flags.
\<close>

record scan_state =
  statements :: "gostring list"
  current :: gostring
  inSingleQuote :: bool
  inDoubleQuote :: bool
  inLineComment :: bool
  inBlockComment :: bool

definition init_state :: scan_state where
  "init_state = \<lparr>statements = [], current = [], inSingleQuote = False,
     inDoubleQuote = False, inLineComment = False, inBlockComment = False\<rparr>"

text \<open>\<^verbatim>\<open>current.WriteRune(ch)\<close>.\<close>

definition writeRune :: "rune \<Rightarrow> scan_state \<Rightarrow> scan_state" where
  "writeRune ch st = st\<lparr>current := current st @ [ch]\<rparr>"

text \<open>
  Lines 638--642 and 650--653: the trimmed buffer is appended to the statements
  unless it is empty.
\<close>

definition emit :: "scan_state \<Rightarrow> gostring list" where
  "emit st = (let stmt = TrimSpace (current st)
              in if stmt \<noteq> [] then statements st @ [stmt] else statements st)"

definition flush :: "scan_state \<Rightarrow> scan_state" where
  "flush st = st\<lparr>statements := emit st, current := []\<rparr>"

text \<open>
  Lines 618--634, the quote toggles. The result's first component tells whether the
  \<^verbatim>\<open>continue\<close> of an escaped quote was taken.
\<close>

definition toggleQuotes :: "gostring \<Rightarrow> nat \<Rightarrow> scan_state \<Rightarrow> bool \<times> scan_state" where
  "toggleQuotes rs i st =
     (let ch = rs ! i in
      if \<not> inLineComment st \<and> \<not> inBlockComment st then
        if ch = rn CHR 0x27 \<and> \<not> inDoubleQuote st then
          if 0 < i \<and> rs ! (i - 1) = rn CHR 0x5C then (True, writeRune ch st)
          else (False, st\<lparr>inSingleQuote := \<not> inSingleQuote st\<rparr>)
        else if ch = rn CHR 0x22 \<and> \<not> inSingleQuote st then
          if 0 < i \<and> rs ! (i - 1) = rn CHR 0x5C then (True, writeRune ch st)
          else (False, st\<lparr>inDoubleQuote := \<not> inDoubleQuote st\<rparr>)
        else (False, st)
      else (False, st))"

text \<open>
  One iteration of the loop at index \<open>i < length rs\<close> (lines 586--646). The result is
  the index the body leaves in \<^verbatim>\<open>i\<close> (the end of a block comment advances it by
  one) and the new state; the loop header then increments the index.
\<close>

definition body :: "gostring \<Rightarrow> nat \<Rightarrow> scan_state \<Rightarrow> nat \<times> scan_state" where
  "body rs i st =
     (let ch = rs ! i in
      if \<not> inSingleQuote st \<and> \<not> inDoubleQuote st \<and> \<not> inBlockComment st \<and>
         ch = rn CHR ''-'' \<and> i + 1 < length rs \<and> rs ! (i + 1) = rn CHR ''-''
      then (i, writeRune ch (st\<lparr>inLineComment := True\<rparr>))
      else if inLineComment st \<and> (ch = rn CHR 0x0A \<or> ch = rn CHR 0x0D)
      then (i, writeRune ch (st\<lparr>inLineComment := False\<rparr>))
      else if \<not> inSingleQuote st \<and> \<not> inDoubleQuote st \<and> \<not> inLineComment st \<and>
         ch = rn CHR ''/'' \<and> i + 1 < length rs \<and> rs ! (i + 1) = rn CHR ''*''
      then (i, writeRune ch (st\<lparr>inBlockComment := True\<rparr>))
      else if inBlockComment st \<and> ch = rn CHR ''*'' \<and> i + 1 < length rs \<and>
         rs ! (i + 1) = rn CHR ''/''
      then (i + 1, writeRune (rs ! (i + 1)) (writeRune ch (st\<lparr>inBlockComment := False\<rparr>)))
      else
        (case toggleQuotes rs i st of
           (True, st') \<Rightarrow> (i, st')
         | (False, st') \<Rightarrow>
             if ch = rn CHR '';'' \<and> \<not> inSingleQuote st' \<and> \<not> inDoubleQuote st' \<and>
                \<not> inLineComment st' \<and> \<not> inBlockComment st'
             then (i, flush st')
             else (i, writeRune ch st')))"

text \<open>The \<^verbatim>\<open>for\<close> loop of line 585.\<close>

function scanLoop :: "gostring \<Rightarrow> nat \<Rightarrow> scan_state \<Rightarrow> scan_state" where
  "scanLoop rs i st =
     (if i < length rs
      then (case body rs i st of (j, st') \<Rightarrow> scanLoop rs (j + 1) st')
      else st)"
  by pat_completeness auto
termination
proof (relation "measure (\<lambda>(rs, i, st). length rs - i)", goal_cases)
  case 1
  show ?case by simp
next
  case (2 rs i st j st')
  have "fst (body rs i st) = i \<or> fst (body rs i st) = i + 1"
    by (simp add: body_def Let_def split: prod.splits bool.splits)
  moreover from 2(2) have "j = fst (body rs i st)" by (metis fst_conv)
  ultimately have "i \<le> j" by auto
  with 2(1) show ?case by simp
qed

declare scanLoop.simps [simp del]

definition splitSQLStatements :: "gostring \<Rightarrow> gostring list" where
  "splitSQLStatements sql = emit (scanLoop sql 0 init_state)"

subsection \<open>Notions used to state the splitter's properties\<close>

text \<open>
  \<open>visits rs i st\<close>: the loop over the runes \<open>rs\<close> reaches its header with index \<open>i\<close>
  and state \<open>st\<close>.
\<close>

inductive visits :: "gostring \<Rightarrow> nat \<Rightarrow> scan_state \<Rightarrow> bool" for rs :: gostring where
  start: "visits rs 0 init_state"
| iter: "visits rs i st \<Longrightarrow> i < length rs \<Longrightarrow> body rs i st = (j, st') \<Longrightarrow> visits rs (j + 1) st'"

text \<open>At most one of the four mode flags is set.\<close>

definition exclusive :: "scan_state \<Rightarrow> bool" where
  "exclusive st \<longleftrightarrow>
     \<not> (inSingleQuote st \<and> inDoubleQuote st) \<and> \<not> (inSingleQuote st \<and> inLineComment st) \<and>
     \<not> (inSingleQuote st \<and> inBlockComment st) \<and> \<not> (inDoubleQuote st \<and> inLineComment st) \<and>
     \<not> (inDoubleQuote st \<and> inBlockComment st) \<and> \<not> (inLineComment st \<and> inBlockComment st)"

text \<open>\<^verbatim>\<open>strings.Join(segs, ";")\<close>.\<close>

fun rejoin :: "gostring list \<Rightarrow> gostring" where
  "rejoin [] = []"
| "rejoin [s] = s"
| "rejoin (s # t # ss) = s @ rn CHR '';'' # rejoin (t # ss)"

text \<open>The non-blank segments, each trimmed.\<close>

definition pieces :: "gostring list \<Rightarrow> gostring list" where
  "pieces segs = filter (\<lambda>s. s \<noteq> []) (map TrimSpace segs)"

text \<open>
  \<open>cut pre st\<close>: the text \<open>pre\<close> scanned so far is the segments already closed and the
  buffer, joined by semicolons, and the statements are the non-blank closed segments.
\<close>

definition cut :: "gostring \<Rightarrow> scan_state \<Rightarrow> bool" where
  "cut pre st \<longleftrightarrow> (\<exists>segs. rejoin (segs @ [current st]) = pre \<and> statements st = pieces segs)"



section \<open>Files, lines and paths\<close>

text \<open>
  The file system as the program reads it: a path either cannot be read or has a
  content, taken as the runes of its UTF-8 text. The program reads files and never
  writes them, so one map serves the whole run.
\<close>

type_synonym filesystem = "gostring \<Rightarrow> gostring option"

text \<open>
  \<^verbatim>\<open>bufio.Scanner\<close> with the default split function \<^verbatim>\<open>ScanLines\<close>: the text is cut
  at every line feed, a last line needs no line feed, and nothing follows a final
  line feed.
\<close>

fun rawLines :: "gostring \<Rightarrow> gostring list" where
  "rawLines [] = []"
| "rawLines (c # cs) =
     (if c = rn CHR 0x0A then [] # rawLines cs
      else (case rawLines cs of [] \<Rightarrow> [[c]] | l # ls \<Rightarrow> (c # l) # ls))"

text \<open>\<^verbatim>\<open>dropCR\<close>: one trailing carriage return is removed from a line.\<close>

definition dropCR :: "gostring \<Rightarrow> gostring" where
  "dropCR l = (if l \<noteq> [] \<and> last l = rn CHR 0x0D then butlast l else l)"

text \<open>
  The scanner's buffer holds at most \<^verbatim>\<open>bufio.MaxScanTokenSize\<close> = 65536 bytes: a line
  of that many bytes or more (in UTF-8, the line feed not counted) makes \<^verbatim>\<open>Scan\<close>
  return false with \<^verbatim>\<open>ErrTooLong\<close>, and no later line is delivered.
\<close>

definition utf8len :: "rune \<Rightarrow> nat" where
  "utf8len r = (if r < 128 then 1 else if r < 2048 then 2 else if r < 65536 then 3 else 4)"

definition fits :: "gostring \<Rightarrow> bool" where
  "fits l \<longleftrightarrow> sum_list (map utf8len l) < 65536"

definition scanLines :: "gostring \<Rightarrow> gostring list" where
  "scanLines content = map dropCR (takeWhile fits (rawLines content))"

definition scanErr :: "gostring \<Rightarrow> bool" where
  "scanErr content \<longleftrightarrow> \<not> list_all fits (rawLines content)"

text \<open>
  \<^verbatim>\<open>path/filepath\<close> for slash-separated paths. \<^verbatim>\<open>Clean\<close> drops empty and \<^verbatim>\<open>.\<close>
  elements, cancels an inner \<^verbatim>\<open>..\<close> against the element before it, drops \<^verbatim>\<open>..\<close> at
  the root, and returns \<^verbatim>\<open>.\<close> for an empty result.
\<close>

fun splitOn :: "rune \<Rightarrow> gostring \<Rightarrow> gostring list" where
  "splitOn sep [] = [[]]"
| "splitOn sep (c # cs) =
     (if c = sep then [] # splitOn sep cs
      else (case splitOn sep cs of [] \<Rightarrow> [[c]] | l # ls \<Rightarrow> (c # l) # ls))"

fun joinWith :: "rune \<Rightarrow> gostring list \<Rightarrow> gostring" where
  "joinWith sep [] = []"
| "joinWith sep [s] = s"
| "joinWith sep (s # t # ss) = s @ sep # joinWith sep (t # ss)"

fun cleanElems :: "bool \<Rightarrow> gostring list \<Rightarrow> gostring list \<Rightarrow> gostring list" where
  "cleanElems rooted acc [] = acc"
| "cleanElems rooted acc (e # es) =
     (if e = [] \<or> e = runes ''.'' then cleanElems rooted acc es
      else if e = runes ''..'' then
        (if acc \<noteq> [] \<and> last acc \<noteq> runes ''..'' then cleanElems rooted (butlast acc) es
         else if rooted then cleanElems rooted acc es
         else cleanElems rooted (acc @ [e]) es)
      else cleanElems rooted (acc @ [e]) es)"

definition pathClean :: "gostring \<Rightarrow> gostring" where
  "pathClean p =
     (let rooted = (p \<noteq> [] \<and> hd p = rn CHR ''/'');
          out = joinWith (rn CHR ''/'') (cleanElems rooted [] (splitOn (rn CHR ''/'') p))
      in if rooted then rn CHR ''/'' # out else if out = [] then runes ''.'' else out)"

text \<open>\<^verbatim>\<open>filepath.Dir\<close>: the path up to its last slash, cleaned.\<close>

definition pathDir :: "gostring \<Rightarrow> gostring" where
  "pathDir p = pathClean (rev (dropWhile (\<lambda>c. c \<noteq> rn CHR ''/'') (rev p)))"

text \<open>\<^verbatim>\<open>filepath.Join\<close> of two elements: empty leading elements are ignored.\<close>

definition pathJoin :: "gostring \<Rightarrow> gostring \<Rightarrow> gostring" where
  "pathJoin a b =
     (if a \<noteq> [] then pathClean (a @ rn CHR ''/'' # b)
      else if b \<noteq> [] then pathClean b else [])"

text \<open>\<^verbatim>\<open>filepath.Base\<close>: the last element of the path, trailing slashes removed first.\<close>

definition pathBase :: "gostring \<Rightarrow> gostring" where
  "pathBase p =
     (if p = [] then runes ''.''
      else let q = rev (dropWhile (\<lambda>c. c = rn CHR ''/'') (rev p));
               b = rev (takeWhile (\<lambda>c. c \<noteq> rn CHR ''/'') (rev q))
           in if b = [] then runes ''/'' else b)"

section \<open>The migration parser\<close>

text \<open>\<^verbatim>\<open>MigrationInfo\<close> (main.go, lines 40--45).\<close>

record MigrationInfo =
  Version :: gostring
  Description :: gostring
  Filename :: gostring
  Checksum :: gostring

text \<open>
  The errors of the modelled functions; \<open>'e\<close> is the error type of the database
  executor, which the program never inspects.
\<close>

datatype 'e error =
    OpenFailed gostring
  | ReadingFailed gostring
  | ReadFailed gostring
  | SqlReadFailed gostring
  | StatementFailed nat 'e
  | ExecutorError 'e

text \<open>
  The patterns \<^verbatim>\<open>^--\s*version:\s*(.+)$\<close> and \<^verbatim>\<open>^--\s*description:\s*(.+)$\<close> (lines
  51--52), in Go's regular expressions: \<^verbatim>\<open>\s\<close> is one of tab, line feed, form feed,
  carriage return and space, \<^verbatim>\<open>.\<close> is any character but a line feed, and the
  anchors are those of the whole text. \<open>headerMatch key line\<close> is the submatch of
  the group when the line matches, for \<open>key\<close> the word with its colon. The second
  \<^verbatim>\<open>\s*\<close> is greedy but leaves the group at least one character: when only white
  space follows the colon, the group is its last character.
\<close>

definition reSpace :: "rune \<Rightarrow> bool" where
  "reSpace r \<longleftrightarrow> r = 9 \<or> r = 10 \<or> r = 12 \<or> r = 13 \<or> r = 32"

definition headerMatch :: "gostring \<Rightarrow> gostring \<Rightarrow> gostring option" where
  "headerMatch key line =
     (if take 2 line = runes ''--'' then
        let r1 = dropWhile reSpace (drop 2 line) in
        if take (length key) r1 = key then
          let r2 = drop (length key) r1; r3 = dropWhile reSpace r2 in
          if r3 \<noteq> [] then (if rn CHR 0x0A \<in> set r3 then None else Some r3)
          else if r2 \<noteq> [] \<and> last r2 \<noteq> rn CHR 0x0A then Some [last r2]
          else None
        else None
      else None)"

definition versionKey :: gostring where
  "versionKey = runes ''version:''"

definition descriptionKey :: gostring where
  "descriptionKey = runes ''description:''"

text \<open>Lines 364--369: what one line does to the version and the description.\<close>

definition applyLine :: "MigrationInfo \<Rightarrow> gostring \<Rightarrow> MigrationInfo" where
  "applyLine info line =
     (let info1 = (case headerMatch versionKey line of
                     Some m \<Rightarrow> info\<lparr>Version := TrimSpace m\<rparr> | None \<Rightarrow> info)
      in case headerMatch descriptionKey line of
           Some m \<Rightarrow> info1\<lparr>Description := TrimSpace m\<rparr> | None \<Rightarrow> info1)"

definition bothFound :: "MigrationInfo \<Rightarrow> bool" where
  "bothFound info \<longleftrightarrow> Version info \<noteq> [] \<and> Description info \<noteq> []"

text \<open>
  The loop of lines 360--375 over the scanner's lines, with the local variables
  \<^verbatim>\<open>info\<close> and \<^verbatim>\<open>lineCount\<close>; it returns both.
\<close>

fun headerLoop :: "gostring list \<Rightarrow> nat \<Rightarrow> MigrationInfo \<Rightarrow> MigrationInfo \<times> nat" where
  "headerLoop [] lineCount info = (info, lineCount)"
| "headerLoop (line # rest) lineCount info =
     (if lineCount < 10 then
        let info' = applyLine info line in
        if bothFound info' then (info', lineCount + 1)
        else headerLoop rest (lineCount + 1) info'
      else (info, lineCount))"

text \<open>
  \<^verbatim>\<open>parseMigrationInfo\<close> (lines 343--378). The MD5 digest in hexadecimal is a
  parameter \<open>md5hex\<close> of the model.
\<close>

definition parseMigrationInfo ::
  "(gostring \<Rightarrow> gostring) \<Rightarrow> filesystem \<Rightarrow> gostring \<Rightarrow> MigrationInfo \<times> 'e error option" where
  "parseMigrationInfo md5hex fs path =
     (let info = \<lparr>Version = [], Description = [], Filename = pathBase path, Checksum = []\<rparr>
      in case fs path of
           None \<Rightarrow> (info, Some (ReadFailed path))
         | Some content \<Rightarrow>
             (fst (headerLoop (scanLines content) 0 (info\<lparr>Checksum := md5hex content\<rparr>)), None))"

subsection \<open>Notions used to state the parser's properties\<close>

text \<open>The submatches of the lines that match a header pattern, in line order.\<close>

definition headerValues :: "gostring \<Rightarrow> gostring list \<Rightarrow> gostring list" where
  "headerValues key ls = List.map_filter (headerMatch key) ls"

text \<open>The trimmed value of the last matching line, empty when no line matches.\<close>

definition lastValue :: "gostring \<Rightarrow> gostring list \<Rightarrow> gostring" where
  "lastValue key ls = (case headerValues key ls of [] \<Rightarrow> [] | ms \<Rightarrow> TrimSpace (last ms))"

text \<open>The trimmed value of the first matching line, empty when no line matches.\<close>

definition firstValue :: "gostring \<Rightarrow> gostring list \<Rightarrow> gostring" where
  "firstValue key ls = (case headerValues key ls of [] \<Rightarrow> [] | m # ms \<Rightarrow> TrimSpace m)"

text \<open>Both fields are non-empty once the lines \<open>ls\<close> have been read.\<close>

definition bothIn :: "gostring list \<Rightarrow> bool" where
  "bothIn ls \<longleftrightarrow> lastValue versionKey ls \<noteq> [] \<and> lastValue descriptionKey ls \<noteq> []"

section \<open>The index resolver\<close>

text \<open>
  What the program prints, one constructor for each message of the modelled functions
  with the values it formats; the five lines that report a checksum mismatch are one
  message. The first two constructors stand for what is printed before the ledger is
  queried: the password prompt of lines 184--186 with the user it names, and the line
  that the executor prints when it has connected (line 445), with the user, the host,
  the port and the database.
\<close>

datatype 'e message =
    PasswordPrompt gostring
  | Connected gostring gostring nat gostring
  | ErrorOpeningFile gostring
  | ProcessingFile gostring gostring
  | AddingSQLFile gostring
  | UnknownFileType gostring
  | NoteCouldNotQuery 'e
  | ErrorProcessingIndex "'e error"
  | CouldNotParse gostring "'e error"
  | Skipping gostring gostring
  | ChecksumMismatch gostring gostring gostring gostring
  | ExecutingSQLFile gostring
  | ExecutingStatement nat nat
  | SuccessfullyExecuted gostring nat
  | ErrorExecuting gostring "'e error"
  | CouldNotRecord gostring 'e
  | MigrationComplete nat nat

text \<open>\<^verbatim>\<open>strings.HasPrefix\<close> and \<^verbatim>\<open>strings.HasSuffix\<close>.\<close>

definition HasPrefix :: "gostring \<Rightarrow> gostring \<Rightarrow> bool" where
  "HasPrefix s p \<longleftrightarrow> length p \<le> length s \<and> take (length p) s = p"

definition HasSuffix :: "gostring \<Rightarrow> gostring \<Rightarrow> bool" where
  "HasSuffix s x \<longleftrightarrow> length x \<le> length s \<and> drop (length s - length x) s = x"

text \<open>
  The slice \<^verbatim>\<open>*sqlfiles\<close> that \<^verbatim>\<open>processWithWriter\<close> appends to and the writer
  \<^verbatim>\<open>w\<close> it prints on.
\<close>

record 'e collect_state =
  sqlfiles :: "gostring list"
  printed :: "'e message list"

text \<open>
  \<^verbatim>\<open>processWithWriter\<close> (lines 502--541) and its loop over the lines of the
  manifest. The program does not detect a manifest that includes itself and then
  recurses, opening the manifest again each time, until the process runs out of a
  resource; the model bounds the depth of nested manifests by its first argument and
  returns \<open>None\<close> when the bound is reached. The
  scanner delivers the lines before an over-long one, and \<^verbatim>\<open>scanner.Err()\<close>
  reports the over-long line after the loop.
\<close>

fun processWithWriter ::
    "nat \<Rightarrow> filesystem \<Rightarrow> bool \<Rightarrow> gostring \<Rightarrow> 'e collect_state \<Rightarrow>
       ('e error option \<times> 'e collect_state) option"
  and processLines ::
    "nat \<Rightarrow> filesystem \<Rightarrow> bool \<Rightarrow> gostring \<Rightarrow> gostring list \<Rightarrow> 'e collect_state \<Rightarrow>
       ('e error option \<times> 'e collect_state) option" where
  "processWithWriter 0 fs debug path st = None"
| "processWithWriter (Suc n) fs debug path st =
     (case fs path of
        None \<Rightarrow> Some (Some (OpenFailed path), st\<lparr>printed := printed st @ [ErrorOpeningFile path]\<rparr>)
      | Some content \<Rightarrow>
          (case processLines n fs debug (pathDir path) (scanLines content)
                  (st\<lparr>printed := printed st @ [ProcessingFile path (pathDir path)]\<rparr>) of
             None \<Rightarrow> None
           | Some (Some e, st') \<Rightarrow> Some (Some e, st')
           | Some (None, st') \<Rightarrow>
               if scanErr content then Some (Some (ReadingFailed path), st')
               else Some (None, st')))"
| "processLines n fs debug dir [] st = Some (None, st)"
| "processLines n fs debug dir (l # ls) st =
     (let line = TrimSpace l in
      if line = [] \<or> HasPrefix line (runes ''#'') then processLines n fs debug dir ls st
      else if HasSuffix line (runes ''.lst'') then
        (case processWithWriter n fs debug (pathJoin dir line) st of
           None \<Rightarrow> None
         | Some (Some e, st') \<Rightarrow> Some (Some e, st')
         | Some (None, st') \<Rightarrow> processLines n fs debug dir ls st')
      else if HasSuffix line (runes ''.sql'') then
        processLines n fs debug dir ls
          (st\<lparr>sqlfiles := sqlfiles st @ [pathJoin dir line],
              printed := (if debug then printed st @ [AddingSQLFile line] else printed st)\<rparr>)
      else processLines n fs debug dir ls (st\<lparr>printed := printed st @ [UnknownFileType line]\<rparr>))"

subsection \<open>The resolution of a manifest, as the specification describes it\<close>

text \<open>
  \<open>resolves fs path files\<close>: the manifest at \<open>path\<close> and every manifest it includes,
  directly or not, can be read, and \<open>files\<close> are the SQL files in document order.
  Each line is trimmed; blank lines and lines that begin with \<^verbatim>\<open>#\<close> are skipped; a
  line that ends in \<^verbatim>\<open>.lst\<close> is replaced by the files of the manifest it names; a
  line that ends in \<^verbatim>\<open>.sql\<close> contributes its path; any other line contributes
  nothing. A name is taken relative to the directory of the manifest that holds the
  line.
\<close>

inductive resolves :: "filesystem \<Rightarrow> gostring \<Rightarrow> gostring list \<Rightarrow> bool"
  and resolvesLines :: "filesystem \<Rightarrow> gostring \<Rightarrow> gostring list \<Rightarrow> gostring list \<Rightarrow> bool"
  for fs :: filesystem where
  manifest:
    "fs path = Some content \<Longrightarrow> \<not> scanErr content \<Longrightarrow>
     resolvesLines fs (pathDir path) (map TrimSpace (scanLines content)) files \<Longrightarrow>
     resolves fs path files"
| finished: "resolvesLines fs dir [] []"
| skipped:
    "line = [] \<or> HasPrefix line (runes ''#'') \<Longrightarrow> resolvesLines fs dir ls files \<Longrightarrow>
     resolvesLines fs dir (line # ls) files"
| nested:
    "line \<noteq> [] \<Longrightarrow> \<not> HasPrefix line (runes ''#'') \<Longrightarrow> HasSuffix line (runes ''.lst'') \<Longrightarrow>
     resolves fs (pathJoin dir line) sub \<Longrightarrow> resolvesLines fs dir ls files \<Longrightarrow>
     resolvesLines fs dir (line # ls) (sub @ files)"
| sqlfile:
    "line \<noteq> [] \<Longrightarrow> \<not> HasPrefix line (runes ''#'') \<Longrightarrow> \<not> HasSuffix line (runes ''.lst'') \<Longrightarrow>
     HasSuffix line (runes ''.sql'') \<Longrightarrow> resolvesLines fs dir ls files \<Longrightarrow>
     resolvesLines fs dir (line # ls) (pathJoin dir line # files)"
| unknown:
    "line \<noteq> [] \<Longrightarrow> \<not> HasPrefix line (runes ''#'') \<Longrightarrow> \<not> HasSuffix line (runes ''.lst'') \<Longrightarrow>
     \<not> HasSuffix line (runes ''.sql'') \<Longrightarrow> resolvesLines fs dir ls files \<Longrightarrow>
     resolvesLines fs dir (line # ls) files"

text \<open>
  An example: \<^verbatim>\<open>index.lst\<close> lists \<^verbatim>\<open>a.sql\<close> and then the manifest
  \<^verbatim>\<open>sub/index.lst\<close>, which lists \<^verbatim>\<open>b.sql\<close>.
\<close>

definition example_fs :: filesystem where
  "example_fs =
     [runes ''index.lst'' \<mapsto> runes ''a.sql'' @ [10] @ runes ''sub/index.lst'' @ [10],
      runes ''sub/index.lst'' \<mapsto> runes ''b.sql'' @ [10]]"

section \<open>The database executor and the ledger\<close>

text \<open>
  \<^verbatim>\<open>DatabaseExecutor\<close> (lines 118--124), as far as the driver uses it after connecting:
  \<^verbatim>\<open>Execute\<close> and \<^verbatim>\<open>Query\<close> act on a database state of type \<open>'b\<close> and report
  an error of type \<open>'e\<close> or succeed. A row is a map from column names to values, of
  which the program only tells strings from everything else.
\<close>

datatype dbvalue = VString gostring | VOther

type_synonym row = "gostring \<Rightarrow> dbvalue option"

record ('b, 'e) executor =
  Execute :: "'b \<Rightarrow> gostring \<Rightarrow> 'e option \<times> 'b"
  Query :: "'b \<Rightarrow> gostring \<Rightarrow> ('e + row list) \<times> 'b"

text \<open>The type assertion \<^verbatim>\<open>row[key].(string)\<close> with its result discarded on failure.\<close>

definition asString :: "dbvalue option \<Rightarrow> gostring" where
  "asString v = (case v of Some (VString s) \<Rightarrow> s | _ \<Rightarrow> [])"

text \<open>\<^verbatim>\<open>getAppliedMigrations\<close> (lines 325--340).\<close>

definition addApplied :: "(gostring \<rightharpoonup> gostring) \<Rightarrow> row \<Rightarrow> (gostring \<rightharpoonup> gostring)" where
  "addApplied result r =
     (let version = asString (r (runes ''version''));
          checksum = asString (r (runes ''checksum''))
      in if version \<noteq> [] then result(version \<mapsto> checksum) else result)"

definition getAppliedMigrations ::
  "('b, 'e) executor \<Rightarrow> 'b \<Rightarrow> ('e + (gostring \<rightharpoonup> gostring)) \<times> 'b" where
  "getAppliedMigrations ex b =
     (case Query ex b (runes ''SELECT version, checksum FROM schema_versions'') of
        (Inl err, b') \<Rightarrow> (Inl err, b')
      | (Inr rows, b') \<Rightarrow> (Inr (foldl addApplied Map.empty rows), b'))"

text \<open>\<^verbatim>\<open>escapeSQLString\<close> (lines 393--395): every single quote is doubled.\<close>

definition escapeSQLString :: "gostring \<Rightarrow> gostring" where
  "escapeSQLString s = concat (map (\<lambda>c. if c = rn CHR 0x27 then [c, c] else [c]) s)"

text \<open>The statement that \<^verbatim>\<open>recordMigration\<close> formats (lines 382--388).\<close>

definition recordSQL :: "MigrationInfo \<Rightarrow> gostring" where
  "recordSQL info =
     runes ''INSERT INTO schema_versions (version, description, filename, checksum) VALUES (''
     @ [rn CHR 0x27] @ escapeSQLString (Version info) @ [rn CHR 0x27] @ runes '', ''
     @ [rn CHR 0x27] @ escapeSQLString (Description info) @ [rn CHR 0x27] @ runes '', ''
     @ [rn CHR 0x27] @ escapeSQLString (Filename info) @ [rn CHR 0x27] @ runes '', ''
     @ [rn CHR 0x27] @ escapeSQLString (Checksum info) @ [rn CHR 0x27] @ runes '')''"

section \<open>The migration driver\<close>

text \<open>The fields of \<^verbatim>\<open>RunConfig\<close> that the driver reads once it is connected.\<close>

record config =
  Path :: gostring
  Force :: bool
  Debug :: bool

text \<open>
  The calls of \<^verbatim>\<open>executor.Execute\<close>, in the order they are made, each with its
  result: a statement of a migration file (the file, the 1-based index of the
  statement in the file, its text) or the insertion of a ledger row by
  \<^verbatim>\<open>recordMigration\<close>.
\<close>

datatype 'e event =
    Statement gostring nat gostring "'e option"
  | Record MigrationInfo "'e option"

text \<open>
  The state of a run: the database, the calls made so far, what was printed on the
  two writers, and the two counters.
\<close>

record ('b, 'e) run_state =
  backend :: 'b
  events :: "'e event list"
  stdout :: "'e message list"
  stderr :: "'e message list"
  migrationsApplied :: nat
  migrationsSkipped :: nat

text \<open>\<^verbatim>\<open>recordMigration\<close> (lines 381--390).\<close>

definition recordMigration ::
  "('b, 'e) executor \<Rightarrow> MigrationInfo \<Rightarrow> ('b, 'e) run_state \<Rightarrow> 'e option \<times> ('b, 'e) run_state" where
  "recordMigration ex info st =
     (case Execute ex (backend st) (recordSQL info) of
        (r, b') \<Rightarrow> (r, st\<lparr>backend := b', events := events st @ [Record info r]\<rparr>))"

text \<open>
  The loop of \<^verbatim>\<open>executeSQLWithWriter\<close> over the statements (lines 556--570);
  \<open>i\<close> is the index of the first statement of the list in the whole slice and
  \<open>n\<close> the length of the slice.
\<close>

fun execStatements ::
  "('b, 'e) executor \<Rightarrow> bool \<Rightarrow> gostring \<Rightarrow> nat \<Rightarrow> nat \<Rightarrow> gostring list \<Rightarrow>
     ('b, 'e) run_state \<Rightarrow> 'e error option \<times> ('b, 'e) run_state" where
  "execStatements ex debug path n i [] st = (None, st)"
| "execStatements ex debug path n i (s # ss) st =
     (let stmt = TrimSpace s in
      if stmt = [] then execStatements ex debug path n (i + 1) ss st
      else
        let st1 = (if debug then st\<lparr>stdout := stdout st @ [ExecutingStatement (i + 1) n]\<rparr>
                   else st)
        in case Execute ex (backend st1) stmt of
             (Some err, b') \<Rightarrow>
               (Some (StatementFailed (i + 1) err),
                st1\<lparr>backend := b', events := events st1 @ [Statement path (i + 1) stmt (Some err)]\<rparr>)
           | (None, b') \<Rightarrow>
               execStatements ex debug path n (i + 1) ss
                 (st1\<lparr>backend := b', events := events st1 @ [Statement path (i + 1) stmt None]\<rparr>))"

text \<open>\<^verbatim>\<open>executeSQLWithWriter\<close> (lines 544--574).\<close>

definition executeSQLWithWriter ::
  "('b, 'e) executor \<Rightarrow> filesystem \<Rightarrow> bool \<Rightarrow> gostring \<Rightarrow> ('b, 'e) run_state \<Rightarrow>
     'e error option \<times> ('b, 'e) run_state" where
  "executeSQLWithWriter ex fs debug path st =
     (let st1 = st\<lparr>stdout := stdout st @ [ExecutingSQLFile path]\<rparr> in
      case fs path of
        None \<Rightarrow> (Some (SqlReadFailed path), st1)
      | Some sql \<Rightarrow>
          (let stmts = splitSQLStatements sql in
           case execStatements ex debug path (length stmts) 0 stmts st1 of
             (Some err, st2) \<Rightarrow> (Some err, st2)
           | (None, st2) \<Rightarrow>
               (None, st2\<lparr>stdout := stdout st2 @ [SuccessfullyExecuted path (length stmts)]\<rparr>)))"

text \<open>
  The body of the loop of \<^verbatim>\<open>run\<close> over the SQL files (lines 229--267). The first
  component of the result is the exit code when the body returns from \<^verbatim>\<open>run\<close>,
  and \<open>None\<close> when the loop goes on (after \<^verbatim>\<open>continue\<close> or at the end of the body).
\<close>

definition runFile ::
  "config \<Rightarrow> ('b, 'e) executor \<Rightarrow> (gostring \<Rightarrow> gostring) \<Rightarrow> filesystem \<Rightarrow>
     (gostring \<rightharpoonup> gostring) \<Rightarrow> gostring \<Rightarrow> ('b, 'e) run_state \<Rightarrow>
     nat option \<times> ('b, 'e) run_state" where
  "runFile cfg ex md5hex fs appliedMigrations sqlFile st =
     (case parseMigrationInfo md5hex fs sqlFile of (info, perr) \<Rightarrow>
      let st1 = (case perr of
                   Some err \<Rightarrow> st\<lparr>stdout := stdout st @ [CouldNotParse sqlFile err]\<rparr>
                 | None \<Rightarrow> st);
          applyFile = (case executeSQLWithWriter ex fs (Debug cfg) sqlFile st1 of
             (Some err, st2) \<Rightarrow>
               (Some 1, st2\<lparr>stderr := stderr st2 @ [ErrorExecuting sqlFile err]\<rparr>)
           | (None, st2) \<Rightarrow>
               let st3 =
                 (if Version info \<noteq> [] then
                    (case recordMigration ex info st2 of
                       (Some err, st') \<Rightarrow>
                         st'\<lparr>stdout := stdout st' @ [CouldNotRecord (Version info) err]\<rparr>
                     | (None, st') \<Rightarrow> st')
                  else st2)
               in (None, st3\<lparr>migrationsApplied := migrationsApplied st3 + 1\<rparr>))
      in if \<not> Force cfg \<and> Version info \<noteq> [] then
           (case appliedMigrations (Version info) of
              Some existingChecksum \<Rightarrow>
                if existingChecksum = Checksum info then
                  (None, st1\<lparr>stdout := (if Debug cfg
                                          then stdout st1 @ [Skipping (pathBase sqlFile) (Version info)]
                                          else stdout st1),
                              migrationsSkipped := migrationsSkipped st1 + 1\<rparr>)
                else
                  (Some 1, st1\<lparr>stderr := stderr st1 @
                     [ChecksumMismatch (Version info) sqlFile existingChecksum (Checksum info)]\<rparr>)
            | None \<Rightarrow> applyFile)
         else applyFile)"

text \<open>The loop of line 228.\<close>

fun runLoop ::
  "config \<Rightarrow> ('b, 'e) executor \<Rightarrow> (gostring \<Rightarrow> gostring) \<Rightarrow> filesystem \<Rightarrow>
     (gostring \<rightharpoonup> gostring) \<Rightarrow> gostring list \<Rightarrow> ('b, 'e) run_state \<Rightarrow>
     nat option \<times> ('b, 'e) run_state" where
  "runLoop cfg ex md5hex fs appliedMigrations [] st = (None, st)"
| "runLoop cfg ex md5hex fs appliedMigrations (sqlFile # rest) st =
     (case runFile cfg ex md5hex fs appliedMigrations sqlFile st of
        (Some code, st') \<Rightarrow> (Some code, st')
      | (None, st') \<Rightarrow> runLoop cfg ex md5hex fs appliedMigrations rest st')"

text \<open>
  Lines 217--270 of \<^verbatim>\<open>run\<close>: the files are resolved and processed in order, and the
  summary is printed. The result is the exit code and the final state, or \<open>None\<close>
  when the resolver does not return. The loading of CSV data that may follow (lines
  272--279) is not part of the model, which returns 0 where the program goes on to it.
\<close>

definition migrate ::
  "nat \<Rightarrow> config \<Rightarrow> ('b, 'e) executor \<Rightarrow> (gostring \<Rightarrow> gostring) \<Rightarrow> filesystem \<Rightarrow>
     (gostring \<rightharpoonup> gostring) \<Rightarrow> ('b, 'e) run_state \<Rightarrow> (nat \<times> ('b, 'e) run_state) option" where
  "migrate depth cfg ex md5hex fs appliedMigrations st =
     (case processWithWriter depth fs (Debug cfg) (Path cfg)
             \<lparr>sqlfiles = [], printed = stdout st\<rparr> of
        None \<Rightarrow> None
      | Some (Some err, c) \<Rightarrow>
          Some (1, st\<lparr>stdout := printed c, stderr := stderr st @ [ErrorProcessingIndex err]\<rparr>)
      | Some (None, c) \<Rightarrow>
          (case runLoop cfg ex md5hex fs appliedMigrations (sqlfiles c) (st\<lparr>stdout := printed c\<rparr>) of
             (Some code, st') \<Rightarrow> Some (code, st')
           | (None, st') \<Rightarrow>
               Some (0, st'\<lparr>stdout := stdout st' @
                  [MigrationComplete (migrationsApplied st') (migrationsSkipped st')]\<rparr>)))"

text \<open>The state in which the driver starts: nothing executed, nothing printed.\<close>

definition fresh :: "'b \<Rightarrow> ('b, 'e) run_state" where
  "fresh b = \<lparr>backend = b, events = [], stdout = [], stderr = [],
               migrationsApplied = 0, migrationsSkipped = 0\<rparr>"

text \<open>
  Lines 207--215 of \<^verbatim>\<open>run\<close>: the applied migrations are loaded; when the query
  fails the mapping is empty, and the failure is printed if the debug flag is set.
\<close>

definition loadApplied ::
  "config \<Rightarrow> ('b, 'e) executor \<Rightarrow> ('b, 'e) run_state \<Rightarrow>
     (gostring \<rightharpoonup> gostring) \<times> ('b, 'e) run_state" where
  "loadApplied cfg ex st =
     (case getAppliedMigrations ex (backend st) of
        (Inl err, b') \<Rightarrow>
          (Map.empty,
           if Debug cfg then st\<lparr>backend := b', stdout := stdout st @ [NoteCouldNotQuery err]\<rparr>
           else st\<lparr>backend := b'\<rparr>)
      | (Inr appliedMigrations, b') \<Rightarrow> (appliedMigrations, st\<lparr>backend := b'\<rparr>))"

text \<open>
  \<^verbatim>\<open>run\<close> from line 207 on, for a connected executor whose database is \<open>b\<close>, when
  \<open>out\<close> is what the lines before have printed on the standard output (the password
  prompt, the line of the connection): the applied migrations are loaded and the
  migration proceeds. The lines before (the flags, the prompt, the connection, and
  the display of the version history, which returns before line 207) are not part of
  the model.
\<close>

definition run ::
  "nat \<Rightarrow> config \<Rightarrow> ('b, 'e) executor \<Rightarrow> (gostring \<Rightarrow> gostring) \<Rightarrow> filesystem \<Rightarrow> 'b \<Rightarrow>
     'e message list \<Rightarrow> (nat \<times> ('b, 'e) run_state) option" where
  "run depth cfg ex md5hex fs b out =
     (case loadApplied cfg ex ((fresh b)\<lparr>stdout := out\<rparr>) of
        (appliedMigrations, st) \<Rightarrow> migrate depth cfg ex md5hex fs appliedMigrations st)"

subsection \<open>Notions used to state the driver's properties\<close>

text \<open>The per-file decision of the specification.\<close>

datatype action = AlwaysApply | Apply | Skip | Reject

definition decide :: "bool \<Rightarrow> (gostring \<rightharpoonup> gostring) \<Rightarrow> MigrationInfo \<Rightarrow> action" where
  "decide force applied info =
     (if Version info = [] then AlwaysApply
      else if force then Apply
      else case applied (Version info) of
             None \<Rightarrow> Apply
           | Some c \<Rightarrow> if c = Checksum info then Skip else Reject)"

text \<open>
  \<open>runAll ex b stmts\<close>: the statements are executed one after the other from the
  database \<open>b\<close>, with the calls numbered from \<open>i + 1\<close>, until one fails; the result is
  the error of the failing one, if any, the database after the last call made, and the
  calls made.
\<close>

fun runAll ::
  "('b, 'e) executor \<Rightarrow> gostring \<Rightarrow> nat \<Rightarrow> 'b \<Rightarrow> gostring list \<Rightarrow>
     (nat \<times> 'e) option \<times> 'b \<times> 'e event list" where
  "runAll ex path i b [] = (None, b, [])"
| "runAll ex path i b (s # ss) =
     (case Execute ex b s of
        (Some err, b') \<Rightarrow> (Some (i + 1, err), b', [Statement path (i + 1) s (Some err)])
      | (None, b') \<Rightarrow>
          (case runAll ex path (i + 1) b' ss of
             (r, b'', evs) \<Rightarrow> (r, b'', Statement path (i + 1) s None # evs)))"

text \<open>
  What applying a file does: an unreadable file and a failing statement end the run
  with exit code 1; otherwise all statements have been executed and, when the file is
  to be recorded, the ledger row is inserted, whether or not that call succeeds. The
  result is the exit code, if the run ends, the database and the calls made.
\<close>

definition applyOutcome ::
  "bool \<Rightarrow> ('b, 'e) executor \<Rightarrow> filesystem \<Rightarrow> gostring \<Rightarrow> MigrationInfo \<Rightarrow> 'b \<Rightarrow>
     nat option \<times> 'b \<times> 'e event list" where
  "applyOutcome recorded ex fs f info b =
     (case fs f of
        None \<Rightarrow> (Some 1, b, [])
      | Some sql \<Rightarrow>
          (case runAll ex f 0 b (splitSQLStatements sql) of
             (Some failure, b', evs) \<Rightarrow> (Some 1, b', evs)
           | (None, b', evs) \<Rightarrow>
               if recorded
               then (case Execute ex b' (recordSQL info) of
                       (res, b'') \<Rightarrow> (None, b'', evs @ [Record info res]))
               else (None, b', evs)))"

text \<open>What the driver does with one file, by the decision taken for it.\<close>

definition fileOutcome ::
  "bool \<Rightarrow> ('b, 'e) executor \<Rightarrow> filesystem \<Rightarrow> (gostring \<rightharpoonup> gostring) \<Rightarrow> gostring \<Rightarrow>
     MigrationInfo \<Rightarrow> 'b \<Rightarrow> nat option \<times> 'b \<times> 'e event list" where
  "fileOutcome force ex fs applied f info b =
     (case decide force applied info of
        AlwaysApply \<Rightarrow> applyOutcome False ex fs f info b
      | Apply \<Rightarrow> applyOutcome True ex fs f info b
      | Skip \<Rightarrow> (None, b, [])
      | Reject \<Rightarrow> (Some 1, b, []))"

text \<open>The versions of the ledger rows that the calls inserted.\<close>

fun inserted :: "'e event list \<Rightarrow> gostring list" where
  "inserted [] = []"
| "inserted (Record info None # evs) = Version info # inserted evs"
| "inserted (ev # evs) = inserted evs"

text \<open>The versions that the files of a run carry in their headers.\<close>

definition fileVersions :: "(gostring \<Rightarrow> gostring) \<Rightarrow> filesystem \<Rightarrow> gostring list \<Rightarrow> gostring list" where
  "fileVersions md5hex fs files =
     filter (\<lambda>v. v \<noteq> [])
       (map (\<lambda>f. Version (fst (parseMigrationInfo md5hex fs f :: MigrationInfo \<times> unit error option)))
          files)"

text \<open>A database double for the examples, after the \<^verbatim>\<open>MockExecutor\<close> of the tests:
  it keeps the statements it executed, fails on the statements listed in \<open>failing\<close>,
  and answers every query with \<open>answer\<close>.\<close>

definition mockExecutor ::
  "gostring list \<Rightarrow> (unit + row list) \<Rightarrow> (gostring list, unit) executor" where
  "mockExecutor failing answer =
     \<lparr>Execute = (\<lambda>b sql. if sql \<in> set failing then (Some (), b) else (None, b @ [sql])),
      Query = (\<lambda>b sql. (answer, b))\<rparr>"

text \<open>
  A migration file for the examples, with a version header and three statements, the
  file system that holds it as \<^verbatim>\<open>m.sql\<close>, and a ledger row that records version 1
  with the checksum \<^verbatim>\<open>X\<close>.
\<close>

definition example_sql :: gostring where
  "example_sql = runes ''-- version: 1'' @ [10] @ runes ''SELECT 1; SELECT 2; SELECT 3;''"

definition example_store :: filesystem where
  "example_store = [runes ''m.sql'' \<mapsto> example_sql]"

definition example_row :: row where
  "example_row = [runes ''version'' \<mapsto> VString (runes ''1''),
                  runes ''checksum'' \<mapsto> VString (runes ''X'')]"

text \<open>
  Two manifests for the examples: \<^verbatim>\<open>index.lst\<close> lists \<^verbatim>\<open>m.sql\<close>, once in the first
  file system and twice in the second.
\<close>

definition example_tree :: filesystem where
  "example_tree = example_store(runes ''index.lst'' \<mapsto> runes ''m.sql'' @ [10])"

definition example_twice :: filesystem where
  "example_twice =
     example_store(runes ''index.lst'' \<mapsto> runes ''m.sql'' @ [10] @ runes ''m.sql'' @ [10])"

text \<open>The version that a ledger row holds.\<close>

definition rowVersion :: "row \<Rightarrow> gostring" where
  "rowVersion r = asString (r (runes ''version''))"

text \<open>
  \<open>extends xs ys\<close>: the output \<open>ys\<close> is the output \<open>xs\<close> followed by messages none of
  which is the note about the failed ledger query.
\<close>

definition extends :: "'e message list \<Rightarrow> 'e message list \<Rightarrow> bool" where
  "extends xs ys \<longleftrightarrow> (\<exists>more. ys = xs @ more \<and> (\<forall>e. NoteCouldNotQuery e \<notin> set more))"

section \<open>Properties of the statement splitter\<close>

subsection \<open>The cases of one loop iteration\<close>

lemma toggleQuotes_cases [consumes 1, case_names Escaped Single Double Other]:
  assumes "toggleQuotes rs i st = (b, st1)"
  obtains
    "\<not> inLineComment st" "\<not> inBlockComment st" "0 < i" "rs ! (i - 1) = rn CHR 0x5C"
      "rs ! i = rn CHR 0x27 \<and> \<not> inDoubleQuote st \<or> rs ! i = rn CHR 0x22 \<and> \<not> inSingleQuote st"
      "b" "st1 = writeRune (rs ! i) st"
  | "\<not> inLineComment st" "\<not> inBlockComment st" "\<not> inDoubleQuote st" "rs ! i = rn CHR 0x27"
      "\<not> (0 < i \<and> rs ! (i - 1) = rn CHR 0x5C)"
      "\<not> b" "st1 = st\<lparr>inSingleQuote := \<not> inSingleQuote st\<rparr>"
  | "\<not> inLineComment st" "\<not> inBlockComment st" "\<not> inSingleQuote st" "rs ! i = rn CHR 0x22"
      "\<not> (0 < i \<and> rs ! (i - 1) = rn CHR 0x5C)"
      "\<not> b" "st1 = st\<lparr>inDoubleQuote := \<not> inDoubleQuote st\<rparr>"
  | "\<not> b" "st1 = st"
proof -
  define q where "q \<longleftrightarrow> rs ! i = rn CHR 0x27"
  define d where "d \<longleftrightarrow> rs ! i = rn CHR 0x22"
  define e where "e \<longleftrightarrow> 0 < i \<and> rs ! (i - 1) = rn CHR 0x5C"
  define w where "w = writeRune (rs ! i) st"
  have eq: "toggleQuotes rs i st =
     (if \<not> inLineComment st \<and> \<not> inBlockComment st then
        if q \<and> \<not> inDoubleQuote st then
          if e then (True, w)
          else (False, st\<lparr>inSingleQuote := \<not> inSingleQuote st\<rparr>)
        else if d \<and> \<not> inSingleQuote st then
          if e then (True, w)
          else (False, st\<lparr>inDoubleQuote := \<not> inDoubleQuote st\<rparr>)
        else (False, st)
      else (False, st))"
    unfolding toggleQuotes_def Let_def q_def d_def e_def w_def by (rule refl)
  have "(\<not> inLineComment st \<and> \<not> inBlockComment st \<and> e \<and>
           (q \<and> \<not> inDoubleQuote st \<or> d \<and> \<not> inSingleQuote st) \<and> b \<and> st1 = w)
      \<or> (\<not> inLineComment st \<and> \<not> inBlockComment st \<and> \<not> inDoubleQuote st \<and> q \<and> \<not> e \<and> \<not> b \<and>
           st1 = st\<lparr>inSingleQuote := \<not> inSingleQuote st\<rparr>)
      \<or> (\<not> inLineComment st \<and> \<not> inBlockComment st \<and> \<not> inSingleQuote st \<and> d \<and> \<not> e \<and> \<not> b \<and>
           st1 = st\<lparr>inDoubleQuote := \<not> inDoubleQuote st\<rparr>)
      \<or> (\<not> b \<and> st1 = st)"
    using assms unfolding eq by (auto split: if_splits)
  then show thesis
    unfolding q_def d_def e_def w_def using that by blast
qed

lemma body_cases [consumes 1, case_names LineStart LineEnd BlockStart BlockEnd Escaped Single Double Split Plain]:
  assumes "body rs i st = (j, st')"
  obtains
    "\<not> inSingleQuote st" "\<not> inDoubleQuote st" "\<not> inBlockComment st" "rs ! i = rn CHR ''-''"
      "i + 1 < length rs" "rs ! (i + 1) = rn CHR ''-''"
      "j = i" "st' = writeRune (rs ! i) (st\<lparr>inLineComment := True\<rparr>)"
  | "inLineComment st" "rs ! i = rn CHR 0x0A \<or> rs ! i = rn CHR 0x0D"
      "j = i" "st' = writeRune (rs ! i) (st\<lparr>inLineComment := False\<rparr>)"
  | "\<not> inSingleQuote st" "\<not> inDoubleQuote st" "\<not> inLineComment st" "rs ! i = rn CHR ''/''"
      "i + 1 < length rs" "rs ! (i + 1) = rn CHR ''*''"
      "j = i" "st' = writeRune (rs ! i) (st\<lparr>inBlockComment := True\<rparr>)"
  | "inBlockComment st" "rs ! i = rn CHR ''*''" "i + 1 < length rs" "rs ! (i + 1) = rn CHR ''/''"
      "j = i + 1"
      "st' = writeRune (rs ! (i + 1)) (writeRune (rs ! i) (st\<lparr>inBlockComment := False\<rparr>))"
  | "\<not> inLineComment st" "\<not> inBlockComment st" "0 < i" "rs ! (i - 1) = rn CHR 0x5C"
      "rs ! i = rn CHR 0x27 \<and> \<not> inDoubleQuote st \<or> rs ! i = rn CHR 0x22 \<and> \<not> inSingleQuote st"
      "j = i" "st' = writeRune (rs ! i) st"
  | "\<not> inLineComment st" "\<not> inBlockComment st" "\<not> inDoubleQuote st" "rs ! i = rn CHR 0x27"
      "\<not> (0 < i \<and> rs ! (i - 1) = rn CHR 0x5C)"
      "j = i" "st' = writeRune (rs ! i) (st\<lparr>inSingleQuote := \<not> inSingleQuote st\<rparr>)"
  | "\<not> inLineComment st" "\<not> inBlockComment st" "\<not> inSingleQuote st" "rs ! i = rn CHR 0x22"
      "\<not> (0 < i \<and> rs ! (i - 1) = rn CHR 0x5C)"
      "j = i" "st' = writeRune (rs ! i) (st\<lparr>inDoubleQuote := \<not> inDoubleQuote st\<rparr>)"
  | "rs ! i = rn CHR '';''" "\<not> inSingleQuote st" "\<not> inDoubleQuote st" "\<not> inLineComment st"
      "\<not> inBlockComment st" "j = i" "st' = flush st"
  | "rs ! i = rn CHR '';'' \<longrightarrow>
       inSingleQuote st \<or> inDoubleQuote st \<or> inLineComment st \<or> inBlockComment st"
      "j = i" "st' = writeRune (rs ! i) st"
proof -
  define c1 where "c1 \<longleftrightarrow> \<not> inSingleQuote st \<and> \<not> inDoubleQuote st \<and> \<not> inBlockComment st \<and>
         rs ! i = rn CHR ''-'' \<and> i + 1 < length rs \<and> rs ! (i + 1) = rn CHR ''-''"
  define c2 where "c2 \<longleftrightarrow> inLineComment st \<and> (rs ! i = rn CHR 0x0A \<or> rs ! i = rn CHR 0x0D)"
  define c3 where "c3 \<longleftrightarrow> \<not> inSingleQuote st \<and> \<not> inDoubleQuote st \<and> \<not> inLineComment st \<and>
         rs ! i = rn CHR ''/'' \<and> i + 1 < length rs \<and> rs ! (i + 1) = rn CHR ''*''"
  define c4 where "c4 \<longleftrightarrow> inBlockComment st \<and> rs ! i = rn CHR ''*'' \<and> i + 1 < length rs \<and>
         rs ! (i + 1) = rn CHR ''/''"
  define s where "s \<longleftrightarrow> rs ! i = rn CHR '';''"
  define w where "w = writeRune (rs ! i)"
  obtain b st1 where t: "toggleQuotes rs i st = (b, st1)"
    by (cases "toggleQuotes rs i st")
  have eq: "body rs i st =
     (if c1 then (i, w (st\<lparr>inLineComment := True\<rparr>))
      else if c2 then (i, w (st\<lparr>inLineComment := False\<rparr>))
      else if c3 then (i, w (st\<lparr>inBlockComment := True\<rparr>))
      else if c4 then (i + 1, writeRune (rs ! (i + 1)) (w (st\<lparr>inBlockComment := False\<rparr>)))
      else if b then (i, st1)
      else if s \<and> \<not> inSingleQuote st1 \<and> \<not> inDoubleQuote st1 \<and>
                \<not> inLineComment st1 \<and> \<not> inBlockComment st1
           then (i, flush st1) else (i, w st1))"
    unfolding body_def Let_def c1_def c2_def c3_def c4_def s_def w_def t
    by (cases b) (simp_all only: prod.case bool.case if_True if_False)
  from t have tog:
    "(b \<and> st1 = w st \<and> \<not> inLineComment st \<and> \<not> inBlockComment st \<and> 0 < i \<and>
        rs ! (i - 1) = rn CHR 0x5C \<and>
        (rs ! i = rn CHR 0x27 \<and> \<not> inDoubleQuote st \<or> rs ! i = rn CHR 0x22 \<and> \<not> inSingleQuote st))
     \<or> (\<not> b \<and> \<not> s \<and> st1 = st\<lparr>inSingleQuote := \<not> inSingleQuote st\<rparr> \<and>
        \<not> inLineComment st \<and> \<not> inBlockComment st \<and> \<not> inDoubleQuote st \<and> rs ! i = rn CHR 0x27 \<and>
        \<not> (0 < i \<and> rs ! (i - 1) = rn CHR 0x5C))
     \<or> (\<not> b \<and> \<not> s \<and> st1 = st\<lparr>inDoubleQuote := \<not> inDoubleQuote st\<rparr> \<and>
        \<not> inLineComment st \<and> \<not> inBlockComment st \<and> \<not> inSingleQuote st \<and> rs ! i = rn CHR 0x22 \<and>
        \<not> (0 < i \<and> rs ! (i - 1) = rn CHR 0x5C))
     \<or> (\<not> b \<and> st1 = st)"
    by (cases rule: toggleQuotes_cases) (simp_all add: s_def w_def)
  consider "c1" | "\<not> c1" "c2" | "\<not> c1" "\<not> c2" "c3" | "\<not> c1" "\<not> c2" "\<not> c3" "c4"
    | "\<not> c1" "\<not> c2" "\<not> c3" "\<not> c4" by blast
  then show thesis
  proof cases
    case 1
    with assms eq have "j = i" "st' = w (st\<lparr>inLineComment := True\<rparr>)" by auto
    with 1 show thesis using that(1) unfolding c1_def w_def by blast
  next
    case 2
    with assms eq have "j = i" "st' = w (st\<lparr>inLineComment := False\<rparr>)" by auto
    with 2 show thesis using that(2) unfolding c2_def w_def by blast
  next
    case 3
    with assms eq have "j = i" "st' = w (st\<lparr>inBlockComment := True\<rparr>)" by auto
    with 3 show thesis using that(3) unfolding c3_def w_def by blast
  next
    case 4
    with assms eq have "j = i + 1"
      "st' = writeRune (rs ! (i + 1)) (w (st\<lparr>inBlockComment := False\<rparr>))" by auto
    with 4 show thesis using that(4) unfolding c4_def w_def by blast
  next
    case 5
    with assms eq have r: "(j, st') = (if b then (i, st1)
      else if s \<and> \<not> inSingleQuote st1 \<and> \<not> inDoubleQuote st1 \<and>
                \<not> inLineComment st1 \<and> \<not> inBlockComment st1
           then (i, flush st1) else (i, w st1))" by simp
    from tog consider
        (e) "b" "st1 = w st" "\<not> inLineComment st" "\<not> inBlockComment st" "0 < i"
          "rs ! (i - 1) = rn CHR 0x5C"
          "rs ! i = rn CHR 0x27 \<and> \<not> inDoubleQuote st \<or> rs ! i = rn CHR 0x22 \<and> \<not> inSingleQuote st"
      | (q) "\<not> b" "\<not> s" "st1 = st\<lparr>inSingleQuote := \<not> inSingleQuote st\<rparr>"
          "\<not> inLineComment st" "\<not> inBlockComment st" "\<not> inDoubleQuote st" "rs ! i = rn CHR 0x27"
          "\<not> (0 < i \<and> rs ! (i - 1) = rn CHR 0x5C)"
      | (d) "\<not> b" "\<not> s" "st1 = st\<lparr>inDoubleQuote := \<not> inDoubleQuote st\<rparr>"
          "\<not> inLineComment st" "\<not> inBlockComment st" "\<not> inSingleQuote st" "rs ! i = rn CHR 0x22"
          "\<not> (0 < i \<and> rs ! (i - 1) = rn CHR 0x5C)"
      | (o) "\<not> b" "st1 = st" by blast
    then show thesis
    proof cases
      case e
      with r have "j = i" "st' = w st" by auto
      with e show thesis using that(5) unfolding w_def by blast
    next
      case q
      with r have "j = i" "st' = w (st\<lparr>inSingleQuote := \<not> inSingleQuote st\<rparr>)" by auto
      with q show thesis using that(6) unfolding w_def by blast
    next
      case d
      with r have "j = i" "st' = w (st\<lparr>inDoubleQuote := \<not> inDoubleQuote st\<rparr>)" by auto
      with d show thesis using that(7) unfolding w_def by blast
    next
      case o
      show thesis
      proof (cases "s \<and> \<not> inSingleQuote st \<and> \<not> inDoubleQuote st \<and>
                \<not> inLineComment st \<and> \<not> inBlockComment st")
        case True
        with r o have "j = i" "st' = flush st" by auto
        with True show thesis using that(8) unfolding s_def by blast
      next
        case False
        with r o have "j = i" "st' = w st" by auto
        with False show thesis using that(9) unfolding s_def w_def by blast
      qed
    qed
  qed
qed

lemma flags_writeRune [simp]:
  "inSingleQuote (writeRune c st) = inSingleQuote st"
  "inDoubleQuote (writeRune c st) = inDoubleQuote st"
  "inLineComment (writeRune c st) = inLineComment st"
  "inBlockComment (writeRune c st) = inBlockComment st"
  by (simp_all add: writeRune_def)

lemma flags_flush [simp]:
  "inSingleQuote (flush st) = inSingleQuote st"
  "inDoubleQuote (flush st) = inDoubleQuote st"
  "inLineComment (flush st) = inLineComment st"
  "inBlockComment (flush st) = inBlockComment st"
  by (simp_all add: flush_def)

subsection \<open>Mode flags\<close>

lemma exclusive_body:
  assumes "exclusive st" and "body rs i st = (j, st')"
  shows "exclusive st'"
  using assms(2,1) by (cases rule: body_cases) (auto simp: exclusive_def)

lemma visits_exclusive: "visits rs i st \<Longrightarrow> exclusive st"
proof (induction rule: visits.induct)
  case start
  show ?case by (simp add: exclusive_def init_state_def)
next
  case (iter i st j st')
  from exclusive_body [OF iter.IH iter.hyps(3)] show ?case .
qed

lemma visits_scanLoop:
  "visits rs i st \<Longrightarrow> \<exists>k\<ge>length rs. visits rs k (scanLoop rs i st)"
proof (induction rs i st rule: scanLoop.induct)
  case (1 rs i st)
  show ?case
  proof (cases "i < length rs")
    case True
    obtain j st' where b: "body rs i st = (j, st')" by (cases "body rs i st")
    from visits.iter [OF "1.prems" True b] have v: "visits rs (j + 1) st'" .
    from "1.IH" [OF True b [symmetric] v] True b show ?thesis
      by (simp add: scanLoop.simps [of rs i])
  next
    case False
    with "1.prems" show ?thesis
      by (auto simp: scanLoop.simps [of rs i] intro!: exI [of _ i])
  qed
qed

lemma block_toggle:
  assumes "exclusive st" "body rs i st = (j, st')" "inBlockComment st' \<noteq> inBlockComment st"
  shows "\<not> inSingleQuote st \<and> \<not> inDoubleQuote st \<and> \<not> inLineComment st"
  using assms(2,1,3) by (cases rule: body_cases) (auto simp: exclusive_def)

lemma line_end:
  assumes "body rs i st = (j, st')" "inLineComment st" "\<not> inLineComment st'"
  shows "rs ! i = rn CHR 0x0A \<or> rs ! i = rn CHR 0x0D"
  using assms by (cases rule: body_cases) auto

text \<open>
  C9. Wherever the loop body runs at a single or double quote that directly follows a
  backslash, both string-literal flags are the same after the iteration as before it:
  an escaped quote neither opens nor closes a literal. This holds from every state, so
  in particular at every state the scan visits.
\<close>

theorem escaped_quote_never_toggles:
  assumes "0 < i" "rs ! (i - 1) = rn CHR 0x5C" "rs ! i = rn CHR 0x27 \<or> rs ! i = rn CHR 0x22"
    and "body rs i st = (j, st')"
  shows "inSingleQuote st' = inSingleQuote st \<and> inDoubleQuote st' = inDoubleQuote st"
  using assms(4,1,2,3) by (cases rule: body_cases) auto

text \<open>
  Witness for C9 on the input \<^verbatim>\<open>'\'\<close>: at index 2 the quote follows the backslash,
  and the scanner stays inside the single-quoted literal that index 0 opened.
\<close>

theorem escaped_quote_never_toggles_witness:
  "body (runes [CHR 0x27, CHR 0x5C, CHR 0x27]) 2 (init_state\<lparr>inSingleQuote := True\<rparr>) =
     (2, writeRune (rn CHR 0x27) (init_state\<lparr>inSingleQuote := True\<rparr>)) \<and>
   inSingleQuote (writeRune (rn CHR 0x27) (init_state\<lparr>inSingleQuote := True\<rparr>)) \<and>
   \<not> inDoubleQuote (writeRune (rn CHR 0x27) (init_state\<lparr>inSingleQuote := True\<rparr>))"
proof -
  let ?rs = "runes [CHR 0x27, CHR 0x5C, CHR 0x27]"
  let ?st = "init_state\<lparr>inSingleQuote := True\<rparr>"
  have b: "body ?rs 2 ?st = (2, writeRune (rn CHR 0x27) ?st)"
    by (simp add: body_def toggleQuotes_def runes_def init_state_def Let_def writeRune_def)
  have "(0::nat) < 2" "?rs ! (2 - 1) = rn CHR 0x5C"
    "?rs ! 2 = rn CHR 0x27 \<or> ?rs ! 2 = rn CHR 0x22"
    by (simp_all add: runes_def)
  from escaped_quote_never_toggles [OF this b] b show ?thesis
    by (simp add: init_state_def)
qed

text \<open>
  C10. In every state the scan visits the four mode flags are mutually exclusive. The
  block-comment flag changes (a \<^verbatim>\<open>/*\<close> or a \<^verbatim>\<open>*/\<close> is recognised) only in an
  iteration that starts with no other flag set, and the line-comment flag is cleared
  only at a line feed or a carriage return.
\<close>

theorem modes_mutually_exclusive:
  assumes "visits rs i st"
  shows "exclusive st \<and>
    (\<forall>j st'. i < length rs \<and> body rs i st = (j, st') \<longrightarrow>
       (inBlockComment st' \<noteq> inBlockComment st \<longrightarrow>
          \<not> inSingleQuote st \<and> \<not> inDoubleQuote st \<and> \<not> inLineComment st) \<and>
       (inLineComment st \<and> \<not> inLineComment st' \<longrightarrow>
          rs ! i = rn CHR 0x0A \<or> rs ! i = rn CHR 0x0D))"
  using visits_exclusive [OF assms] block_toggle line_end by blast

text \<open>
  Witness for C10 on the input \<^verbatim>\<open>--\<close>: after the first dash the scan is in a line
  comment and in no other mode.
\<close>

theorem modes_mutually_exclusive_witness:
  "visits (runes ''--'') 1 (writeRune (rn CHR ''-'') (init_state\<lparr>inLineComment := True\<rparr>)) \<and>
   exclusive (writeRune (rn CHR ''-'') (init_state\<lparr>inLineComment := True\<rparr>))"
proof -
  have b: "body (runes ''--'') 0 init_state =
      (0, writeRune (rn CHR ''-'') (init_state\<lparr>inLineComment := True\<rparr>))"
    by (simp add: body_def runes_def init_state_def Let_def)
  have l: "0 < length (runes ''--'')" by (simp add: runes_def)
  from visits.iter [OF visits.start l b]
  have v: "visits (runes ''--'') 1 (writeRune (rn CHR ''-'') (init_state\<lparr>inLineComment := True\<rparr>))"
    by simp
  from modes_mutually_exclusive [OF v] v show ?thesis by blast
qed

subsection \<open>Where statements are cut\<close>

lemma semicolon_boundary:
  assumes "body rs i st = (j, st')" and "rs ! i = rn CHR '';''"
  shows "if inSingleQuote st \<or> inDoubleQuote st \<or> inLineComment st \<or> inBlockComment st
         then statements st' = statements st \<and> current st' = current st @ [rn CHR '';'']
         else statements st' = emit st \<and> current st' = []"
  using assms by (cases rule: body_cases) (auto simp: writeRune_def flush_def)


lemmas split_eval = splitSQLStatements_def runes_def scanLoop.simps body_def toggleQuotes_def
     init_state_def writeRune_def flush_def emit_def TrimSpace_def isSpace_def Let_def

lemma split_example_literal:
  "splitSQLStatements (runes ''INSERT INTO t VALUES ('a;b'); SELECT 1;'') =
     [runes ''INSERT INTO t VALUES ('a;b')'', runes ''SELECT 1'']"
  by (simp add: split_eval)

lemma split_example_three:
  "splitSQLStatements (runes ''SELECT 1; SELECT 2; SELECT 3;'') =
     [runes ''SELECT 1'', runes ''SELECT 2'', runes ''SELECT 3'']"
  by (simp add: split_eval)

text \<open>
  C2. The splitter starts a block comment at the \<^verbatim>\<open>/\<close> of \<^verbatim>\<open>/*\<close> and consumes only
  that one rune, so the \<^verbatim>\<open>*\<close> of the opening marker can serve as the \<^verbatim>\<open>*\<close> of a
  closing \<^verbatim>\<open>*/\<close>. On the text \<^verbatim>\<open>/*/;*/\<close>, a single block comment that contains
  a semicolon, the comment is taken to end at index 2 and the semicolon at index 3 cuts
  the text in two.
\<close>

theorem split_block_comment_overlap:
  "splitSQLStatements (runes ''/*/;*/'') = [runes ''/*/'', runes ''*/'']"
  by (simp add: split_eval)

subsection \<open>Segments, trimming and rejoining\<close>

lemma rejoin_snoc: "segs \<noteq> [] \<Longrightarrow> rejoin (segs @ [c]) = rejoin segs @ rn CHR '';'' # c"
  by (induction segs rule: rejoin.induct) simp_all

lemma rejoin_snoc_write: "rejoin (segs @ [c @ [x]]) = rejoin (segs @ [c]) @ [x]"
  by (cases "segs = []") (simp_all add: rejoin_snoc)

lemma rejoin_snoc_new: "rejoin ((segs @ [c]) @ [[]]) = rejoin (segs @ [c]) @ [rn CHR '';'']"
  by (simp add: rejoin_snoc del: append_assoc)

lemma pieces_snoc: "pieces (segs @ [c]) = emit \<lparr>statements = pieces segs, current = c,
   inSingleQuote = a, inDoubleQuote = b, inLineComment = d, inBlockComment = e\<rparr>"
  by (simp add: pieces_def emit_def Let_def)

lemma cut_write: "cut pre st \<Longrightarrow> current st' = current st @ [x] \<Longrightarrow> statements st' = statements st
   \<Longrightarrow> cut (pre @ [x]) st'"
  unfolding cut_def by (metis rejoin_snoc_write)

lemma emit_pieces: "statements st = pieces segs \<Longrightarrow> emit st = pieces (segs @ [current st])"
  by (simp add: pieces_def emit_def Let_def)

lemma cut_flush: "cut pre st \<Longrightarrow> cut (pre @ [rn CHR '';'']) (flush st)"
  unfolding cut_def
proof (elim exE conjE)
  fix segs assume r: "rejoin (segs @ [current st]) = pre" and p: "statements st = pieces segs"
  have "rejoin ((segs @ [current st]) @ [current (flush st)]) = pre @ [rn CHR '';'']"
    using r by (simp add: flush_def rejoin_snoc_new del: append_assoc)
  moreover have "statements (flush st) = pieces (segs @ [current st])"
    using emit_pieces [OF p] by (simp add: flush_def)
  ultimately show "\<exists>segs. rejoin (segs @ [current (flush st)]) = pre @ [rn CHR '';''] \<and>
     statements (flush st) = pieces segs" by blast
qed

lemma cut_body:
  assumes "cut (take i rs) st" "i < length rs" "body rs i st = (j, st')"
  shows "j + 1 \<le> length rs \<and> cut (take (j + 1) rs) st'"
  using assms(3)
proof (cases rule: body_cases)
  case BlockEnd
  have "take (i + 1 + 1) rs = (take i rs @ [rs ! i]) @ [rs ! (i + 1)]"
    using BlockEnd(3) by (simp add: take_Suc_conv_app_nth)
  moreover have "cut ((take i rs @ [rs ! i]) @ [rs ! (i + 1)]) st'"
    by (rule cut_write [OF cut_write [OF assms(1), of "writeRune (rs ! i) (st\<lparr>inBlockComment := False\<rparr>)"]])
      (simp_all add: BlockEnd writeRune_def)
  ultimately show ?thesis using BlockEnd by simp
next
  case Split
  have "take (i + 1) rs = take i rs @ [rn CHR '';'']"
    using assms(2) Split(1) by (simp add: take_Suc_conv_app_nth)
  with cut_flush [OF assms(1)] assms(2) Split show ?thesis by simp
qed (use assms(1,2) in \<open>auto simp: take_Suc_conv_app_nth writeRune_def intro!: cut_write\<close>)

lemma visits_cut: "visits rs i st \<Longrightarrow> i \<le> length rs \<and> cut (take i rs) st"
proof (induction rule: visits.induct)
  case start
  show ?case by (simp add: cut_def init_state_def pieces_def exI [of _ "[]"])
next
  case (iter i st j st')
  then show ?case using cut_body [of i rs st j st'] by simp
qed

lemma split_cut: "\<exists>segs. rejoin segs = rs \<and> splitSQLStatements rs = pieces segs"
proof -
  from visits_scanLoop [OF visits.start, of rs]
  obtain k where k: "length rs \<le> k" and v: "visits rs k (scanLoop rs 0 init_state)" by blast
  from visits_cut [OF v] k have "cut rs (scanLoop rs 0 init_state)" by simp
  then obtain segs where "rejoin (segs @ [current (scanLoop rs 0 init_state)]) = rs"
    and "statements (scanLoop rs 0 init_state) = pieces segs" unfolding cut_def by blast
  then show ?thesis
    using emit_pieces [of "scanLoop rs 0 init_state" segs]
    by (auto simp: splitSQLStatements_def)
qed

lemma TrimSpace_ends:
  assumes "TrimSpace s \<noteq> []"
  shows "\<not> isSpace (hd (TrimSpace s)) \<and> \<not> isSpace (last (TrimSpace s))"
proof -
  let ?d = "dropWhile isSpace s"
  let ?e = "dropWhile isSpace (rev ?d)"
  from assms have e: "?e \<noteq> []" by (simp add: TrimSpace_def)
  have d: "?d \<noteq> []"
  proof
    assume "?d = []"
    with e show False by simp
  qed
  from e have 1: "\<not> isSpace (hd ?e)" by (rule hd_dropWhile)
  from d have 2: "\<not> isSpace (hd ?d)" by (rule hd_dropWhile)
  obtain ys where ys: "rev ?d = ys @ ?e"
    by (metis takeWhile_dropWhile_id)
  with e have "last ?e = last (rev ?d)" by (metis last_appendR)
  also have "\<dots> = hd ?d" using d by (simp add: last_rev)
  finally have "last ?e = hd ?d" .
  with 1 2 e show ?thesis by (simp add: TrimSpace_def hd_rev last_rev)
qed





section \<open>Properties of the migration parser\<close>

lemma headerLoop_spec:
  "headerLoop ls c info = (info', n) \<Longrightarrow>
   \<exists>m. n = c + m \<and> m \<le> length ls \<and> (m = 0 \<or> c + m \<le> 10) \<and>
       info' = foldl applyLine info (take m ls) \<and>
       (\<forall>k. 0 < k \<and> k < m \<longrightarrow> \<not> bothFound (foldl applyLine info (take k ls))) \<and>
       (m < length ls \<and> c + m < 10 \<longrightarrow> 0 < m \<and> bothFound (foldl applyLine info (take m ls)))"
proof (induction ls arbitrary: c info)
  case Nil
  then show ?case by simp
next
  case (Cons line rest)
  show ?case
  proof (cases "c < 10")
    case False
    with Cons.prems show ?thesis by (intro exI [of _ 0]) auto
  next
    case c: True
    let ?i = "applyLine info line"
    show ?thesis
    proof (cases "bothFound ?i")
      case True
      with c Cons.prems have "info' = ?i" "n = c + 1" by (simp_all add: Let_def)
      with True c show ?thesis by (intro exI [of _ 1]) auto
    next
      case False
      with c Cons.prems have "headerLoop rest (c + 1) ?i = (info', n)" by (simp add: Let_def)
      from Cons.IH [OF this] obtain m where m: "n = c + 1 + m" "m \<le> length rest"
        "m = 0 \<or> c + 1 + m \<le> 10" "info' = foldl applyLine ?i (take m rest)"
        "\<forall>k. 0 < k \<and> k < m \<longrightarrow> \<not> bothFound (foldl applyLine ?i (take k rest))"
        "m < length rest \<and> c + 1 + m < 10 \<longrightarrow> 0 < m \<and> bothFound (foldl applyLine ?i (take m rest))"
        by blast
      have "\<not> bothFound (foldl applyLine info (take k (line # rest)))" if "0 < k" "k < Suc m" for k
      proof (cases k)
        case 0
        with that show ?thesis by simp
      next
        case (Suc k')
        show ?thesis
        proof (cases "k' = 0")
          case True
          with Suc False show ?thesis by simp
        next
          case k: False
          with Suc that m(5) show ?thesis by simp
        qed
      qed
      with m c show ?thesis by (intro exI [of _ "Suc m"]) auto
    qed
  qed
qed

lemma headerValues_snoc:
  "headerValues key (ls @ [l]) =
     headerValues key ls @ (case headerMatch key l of None \<Rightarrow> [] | Some m \<Rightarrow> [m])"
  by (auto simp: headerValues_def List.map_filter_def split: option.splits)

lemma foldl_applyLine_fields:
  "Version (foldl applyLine info ls) =
     (case headerValues versionKey ls of [] \<Rightarrow> Version info | ms \<Rightarrow> TrimSpace (last ms)) \<and>
   Description (foldl applyLine info ls) =
     (case headerValues descriptionKey ls of [] \<Rightarrow> Description info | ms \<Rightarrow> TrimSpace (last ms)) \<and>
   Filename (foldl applyLine info ls) = Filename info \<and>
   Checksum (foldl applyLine info ls) = Checksum info"
proof (induction ls rule: rev_induct)
  case Nil
  show ?case by (simp add: headerValues_def List.map_filter_def)
next
  case (snoc l ls)
  then show ?case
    by (auto simp: headerValues_snoc applyLine_def Let_def split: option.splits list.splits)
qed

lemma foldl_applyLine_empty:
  assumes "Version info = []" "Description info = []"
  shows "Version (foldl applyLine info ls) = lastValue versionKey ls"
    and "Description (foldl applyLine info ls) = lastValue descriptionKey ls"
    and "bothFound (foldl applyLine info ls) = bothIn ls"
  using assms foldl_applyLine_fields [of info ls]
  by (auto simp: lastValue_def bothFound_def bothIn_def split: list.splits)

lemma lastValue_no_match:
  assumes "\<forall>l \<in> set ls. headerMatch key l = None" and "n \<le> length ls"
  shows "lastValue key (take n ls) = []"
proof -
  have "\<forall>l \<in> set (take n ls). headerMatch key l = None"
    using assms(1) by (meson in_set_takeD)
  then have "headerValues key (take n ls) = []"
    by (auto simp: headerValues_def List.map_filter_def filter_empty_conv)
  then show ?thesis by (simp add: lastValue_def)
qed

lemmas parse_eval = parseMigrationInfo_def scanLines_def dropCR_def fits_def utf8len_def
  applyLine_def headerMatch_def versionKey_def descriptionKey_def bothFound_def
  TrimSpace_def isSpace_def reSpace_def runes_def pathBase_def firstValue_def lastValue_def
  headerValues_def List.map_filter_def bothIn_def Let_def

text \<open>
  C3, as the code has it. For a readable file, the parser examines the first \<open>n\<close> lines
  the scanner delivers, where \<open>n\<close> is at most 10. Each field is the trimmed value of
  the last matching line among those \<open>n\<close> lines: a later match overwrites an earlier
  one, and a field with no matching line stays empty. The scan stops as soon as both
  fields are non-empty: they are not both non-empty after any shorter non-empty prefix,
  and they are when the scan stops before line 10 and before the end of the file. A
  field whose header appears in none of the first 10 lines is empty.
\<close>

theorem parse_header_scan:
  assumes "fs path = Some content"
  shows "\<exists>n. n \<le> 10 \<and> n \<le> length (scanLines content) \<and>
     Version (fst (parseMigrationInfo md5hex fs path)) =
       lastValue versionKey (take n (scanLines content)) \<and>
     Description (fst (parseMigrationInfo md5hex fs path)) =
       lastValue descriptionKey (take n (scanLines content)) \<and>
     (\<forall>k. 0 < k \<and> k < n \<longrightarrow> \<not> bothIn (take k (scanLines content))) \<and>
     (n < 10 \<and> n < length (scanLines content) \<longrightarrow> bothIn (take n (scanLines content))) \<and>
     ((\<forall>l \<in> set (take 10 (scanLines content)). headerMatch versionKey l = None) \<longrightarrow>
        Version (fst (parseMigrationInfo md5hex fs path)) = []) \<and>
     ((\<forall>l \<in> set (take 10 (scanLines content)). headerMatch descriptionKey l = None) \<longrightarrow>
        Description (fst (parseMigrationInfo md5hex fs path)) = [])"
proof -
  let ?ls = "scanLines content"
  define i0 where
    "i0 = \<lparr>Version = [], Description = [], Filename = pathBase path, Checksum = md5hex content\<rparr>"
  have i0: "Version i0 = []" "Description i0 = []" by (simp_all add: i0_def)
  obtain info' n where h: "headerLoop ?ls 0 i0 = (info', n)" by (cases "headerLoop ?ls 0 i0")
  have p: "fst (parseMigrationInfo md5hex fs path) = info'"
    using h by (simp add: parseMigrationInfo_def assms i0_def)
  from headerLoop_spec [OF h] obtain m where m: "n = 0 + m" "m \<le> length ?ls" "m = 0 \<or> 0 + m \<le> 10"
    "info' = foldl applyLine i0 (take m ?ls)"
    "\<forall>k. 0 < k \<and> k < m \<longrightarrow> \<not> bothFound (foldl applyLine i0 (take k ?ls))"
    "m < length ?ls \<and> 0 + m < 10 \<longrightarrow> 0 < m \<and> bothFound (foldl applyLine i0 (take m ?ls))"
    by blast
  from m(1) have nm: "m = n" by simp
  note n = m(2-6) [unfolded nm]
  have b: "bothFound (foldl applyLine i0 (take k ?ls)) = bothIn (take k ?ls)" for k
    using i0 by (rule foldl_applyLine_empty(3))
  have v: "Version info' = lastValue versionKey (take n ?ls)"
    unfolding n(3) using i0 by (rule foldl_applyLine_empty(1))
  have d: "Description info' = lastValue descriptionKey (take n ?ls)"
    unfolding n(3) using i0 by (rule foldl_applyLine_empty(2))
  have n10: "n \<le> 10" using n(2) by auto
  have t: "take n ?ls = take n (take 10 ?ls)" using n10 by (simp add: min_def)
  have l: "n \<le> length (take 10 ?ls)" using n(1) n10 by simp
  have nv: "Version info' = []"
    if "\<forall>l \<in> set (take 10 ?ls). headerMatch versionKey l = None"
    using lastValue_no_match [OF that l] v t by simp
  have nd: "Description info' = []"
    if "\<forall>l \<in> set (take 10 ?ls). headerMatch descriptionKey l = None"
    using lastValue_no_match [OF that l] d t by simp
  from n(4) have k': "\<forall>k. 0 < k \<and> k < n \<longrightarrow> \<not> bothIn (take k ?ls)" unfolding b .
  from n(5) have e': "n < 10 \<and> n < length ?ls \<longrightarrow> bothIn (take n ?ls)" unfolding b by simp
  show ?thesis
    unfolding p
    apply (rule exI [of _ n])
    apply (intro conjI)
    apply (rule n10)
    apply (rule n(1))
    apply (rule v)
    apply (rule d)
    apply (rule k')
    apply (rule e')
    using nv apply blast
    using nd apply blast
    done
qed


text \<open>
  Witness for C3: ten empty lines, then both headers on lines 11 and 12. The file is
  readable, line 11 matches the version pattern, and both fields come out empty.
\<close>

theorem parse_header_scan_witness:
  "[runes ''m.sql'' \<mapsto> [10, 10, 10, 10, 10, 10, 10, 10, 10, 10] @ runes ''-- version: 1'' @ [10] @
       runes ''-- description: d'' @ [10]] (runes ''m.sql'') =
     Some ([10, 10, 10, 10, 10, 10, 10, 10, 10, 10] @ runes ''-- version: 1'' @ [10] @ runes ''-- description: d'' @ [10]) \<and>
   headerMatch versionKey (scanLines ([10, 10, 10, 10, 10, 10, 10, 10, 10, 10] @ runes ''-- version: 1'' @ [10] @
       runes ''-- description: d'' @ [10]) ! 10) = Some (runes ''1'') \<and>
   Version (fst (parseMigrationInfo (\<lambda>c. [])
      [runes ''m.sql'' \<mapsto> [10, 10, 10, 10, 10, 10, 10, 10, 10, 10] @ runes ''-- version: 1'' @ [10] @
         runes ''-- description: d'' @ [10]] (runes ''m.sql'')
      :: MigrationInfo \<times> unit error option)) = [] \<and>
   Description (fst (parseMigrationInfo (\<lambda>c. [])
      [runes ''m.sql'' \<mapsto> [10, 10, 10, 10, 10, 10, 10, 10, 10, 10] @ runes ''-- version: 1'' @ [10] @
         runes ''-- description: d'' @ [10]] (runes ''m.sql'')
      :: MigrationInfo \<times> unit error option)) = []"
proof -
  let ?c = "[10, 10, 10, 10, 10, 10, 10, 10, 10, 10] @ runes ''-- version: 1'' @ [10] @ runes ''-- description: d'' @ [10]"
  let ?fs = "[runes ''m.sql'' \<mapsto> ?c]"
  have l: "scanLines ?c = [[], [], [], [], [], [], [], [], [], []] @ [runes ''-- version: 1'', runes ''-- description: d'']"
    by (simp add: parse_eval)
  have f: "?fs (runes ''m.sql'') = Some ?c" by simp
  have v: "\<forall>l \<in> set (take 10 (scanLines ?c)). headerMatch versionKey l = None"
    unfolding l by (simp add: parse_eval)
  have d: "\<forall>l \<in> set (take 10 (scanLines ?c)). headerMatch descriptionKey l = None"
    unfolding l by (simp add: parse_eval)
  have m: "headerMatch versionKey (scanLines ?c ! 10) = Some (runes ''1'')"
    unfolding l by (simp add: parse_eval)
  from parse_header_scan [of ?fs "runes ''m.sql''" ?c "\<lambda>c. []", OF f] v d
  have "Version (fst (parseMigrationInfo (\<lambda>c. []) ?fs (runes ''m.sql'')
      :: MigrationInfo \<times> unit error option)) = [] \<and>
    Description (fst (parseMigrationInfo (\<lambda>c. []) ?fs (runes ''m.sql'')
      :: MigrationInfo \<times> unit error option)) = []"
    by blast
  with f m show ?thesis by blast
qed

text \<open>
  Counterexample to C3 as stated: with two version headers before the description, the
  parsed version is that of the second one, not of the first matching line.
\<close>

theorem first_match_counterexample:
  "Version (fst (parseMigrationInfo (\<lambda>c. []) 
      [runes ''m.sql'' \<mapsto> runes ''-- version: 1'' @ [10] @ runes ''-- version: 2'' @ [10] @
          runes ''-- description: d'' @ [10]] (runes ''m.sql'')
      :: MigrationInfo \<times> unit error option)) = runes ''2'' \<and>
   firstValue versionKey (take 10 (scanLines (runes ''-- version: 1'' @ [10] @
      runes ''-- version: 2'' @ [10] @ runes ''-- description: d'' @ [10]))) = runes ''1''"
  by (simp add: parse_eval)

section \<open>Properties of the index resolver\<close>

lemma processLines_Cons:
  "processLines k fs debug dir (l # ls) st =
     (if TrimSpace l = [] \<or> HasPrefix (TrimSpace l) (runes ''#'') then processLines k fs debug dir ls st
      else if HasSuffix (TrimSpace l) (runes ''.lst'') then
        (case processWithWriter k fs debug (pathJoin dir (TrimSpace l)) st of
           None \<Rightarrow> None
         | Some (Some e, st') \<Rightarrow> Some (Some e, st')
         | Some (None, st') \<Rightarrow> processLines k fs debug dir ls st')
      else if HasSuffix (TrimSpace l) (runes ''.sql'') then
        processLines k fs debug dir ls
          (st\<lparr>sqlfiles := sqlfiles st @ [pathJoin dir (TrimSpace l)],
              printed := (if debug then printed st @ [AddingSQLFile (TrimSpace l)] else printed st)\<rparr>)
      else processLines k fs debug dir ls (st\<lparr>printed := printed st @ [UnknownFileType (TrimSpace l)]\<rparr>))"
  by (simp only: processLines.simps Let_def)

lemma processWithWriter_Suc:
  "processWithWriter (Suc n) fs debug path st =
     (case fs path of
        None \<Rightarrow> Some (Some (OpenFailed path), st\<lparr>printed := printed st @ [ErrorOpeningFile path]\<rparr>)
      | Some content \<Rightarrow>
          (case processLines n fs debug (pathDir path) (scanLines content)
                  (st\<lparr>printed := printed st @ [ProcessingFile path (pathDir path)]\<rparr>) of
             None \<Rightarrow> None
           | Some (Some e, st') \<Rightarrow> Some (Some e, st')
           | Some (None, st') \<Rightarrow>
               if scanErr content then Some (Some (ReadingFailed path), st')
               else Some (None, st')))"
  by (simp only: processWithWriter.simps)

declare processWithWriter.simps [simp del] processLines.simps [simp del]

lemma fuel_Suc:
  "processWithWriter n fs debug path (st :: 'e collect_state) = Some r \<Longrightarrow>
     processWithWriter (Suc n) fs debug path st = Some r"
  "processLines n fs debug dir ls (st :: 'e collect_state) = Some r' \<Longrightarrow>
     processLines (Suc n) fs debug dir ls st = Some r'"
proof (induction n fs debug path st and n fs debug dir ls st arbitrary: r and r'
    rule: processWithWriter_processLines.induct)
  case (1 fs debug path st)
  then show ?case by (simp add: processWithWriter.simps)
next
  case (2 n fs debug path st)
  show ?case
  proof (cases "fs path")
    case None
    with "2.prems" show ?thesis by (simp add: processWithWriter_Suc)
  next
    case (Some content)
    let ?st = "st\<lparr>printed := printed st @ [ProcessingFile path (pathDir path)]\<rparr>"
    show ?thesis
    proof (cases "processLines n fs debug (pathDir path) (scanLines content) ?st")
      case None
      with Some "2.prems" show ?thesis by (simp add: processWithWriter_Suc)
    next
      case r: (Some a)
      from "2.IH" [OF Some r]
      have "processLines (Suc n) fs debug (pathDir path) (scanLines content) ?st = Some a" .
      with r Some "2.prems" show ?thesis
        by (simp add: processWithWriter_Suc [of "Suc n"] processWithWriter_Suc [of n])
    qed
  qed
next
  case (3 n fs debug dir st)
  then show ?case by (simp add: processLines.simps)
next
  case (4 n fs debug dir l ls st)
  let ?line = "TrimSpace l"
  note p = "4.prems" [unfolded processLines_Cons]
  consider (skip) "?line = [] \<or> HasPrefix ?line (runes ''#'')"
    | (lst) "\<not> (?line = [] \<or> HasPrefix ?line (runes ''#''))" "HasSuffix ?line (runes ''.lst'')"
    | (sql) "\<not> (?line = [] \<or> HasPrefix ?line (runes ''#''))" "\<not> HasSuffix ?line (runes ''.lst'')"
        "HasSuffix ?line (runes ''.sql'')"
    | (other) "\<not> (?line = [] \<or> HasPrefix ?line (runes ''#''))" "\<not> HasSuffix ?line (runes ''.lst'')"
        "\<not> HasSuffix ?line (runes ''.sql'')"
    by blast
  then show ?case
  proof cases
    case skip
    from p skip have "processLines n fs debug dir ls st = Some r'" by simp
    from "4.IH"(1) [OF refl skip this] skip show ?thesis
      by (simp add: processLines_Cons)
  next
    case lst
    show ?thesis
    proof (cases "processWithWriter n fs debug (pathJoin dir ?line) st")
      case None
      with lst p show ?thesis by simp
    next
      case (Some a)
      from "4.IH"(2) [OF refl lst Some]
      have s: "processWithWriter (Suc n) fs debug (pathJoin dir ?line) st = Some a" .
      obtain e st' where a: "a = (e, st')" by (cases a)
      show ?thesis
      proof (cases e)
        case None
        from p lst Some a None have "processLines n fs debug dir ls st' = Some r'" by simp
        from "4.IH"(3) [OF refl lst Some a [symmetric] None this]
        show ?thesis using lst s a None by (simp add: processLines_Cons)
      next
        case e: (Some err)
        from p lst Some a e have "r' = (Some err, st')" by simp
        then show ?thesis using lst s a e by (simp add: processLines_Cons)
      qed
    qed
  next
    case sql
    let ?st = "st\<lparr>sqlfiles := sqlfiles st @ [pathJoin dir ?line],
              printed := (if debug then printed st @ [AddingSQLFile ?line] else printed st)\<rparr>"
    from p sql have "processLines n fs debug dir ls ?st = Some r'" by simp
    from "4.IH"(4) [OF refl sql this] sql show ?thesis
      by (simp add: processLines_Cons)
  next
    case other
    let ?st = "st\<lparr>printed := printed st @ [UnknownFileType ?line]\<rparr>"
    from p other have "processLines n fs debug dir ls ?st = Some r'" by simp
    from "4.IH"(5) [OF refl other this] other show ?thesis
      by (simp add: processLines_Cons)
  qed
qed

lemma fuel_mono:
  assumes "n \<le> m"
  shows "processWithWriter n fs debug path (st :: 'e collect_state) = Some r \<Longrightarrow>
           processWithWriter m fs debug path st = Some r"
    and "processLines n fs debug dir ls (st :: 'e collect_state) = Some r' \<Longrightarrow>
           processLines m fs debug dir ls st = Some r'"
  using assms by (induction rule: dec_induct) (auto intro: fuel_Suc)

lemma resolves_process:
  "resolves fs path files \<Longrightarrow>
     \<exists>n. \<forall>st :: 'e collect_state. \<exists>st'.
        processWithWriter n fs debug path st = Some (None, st') \<and>
        sqlfiles st' = sqlfiles st @ files"
  "resolvesLines fs dir tls files \<Longrightarrow>
     \<forall>ls. tls = map TrimSpace ls \<longrightarrow>
       (\<exists>n. \<forall>st :: 'e collect_state. \<exists>st'.
          processLines n fs debug dir ls st = Some (None, st') \<and>
          sqlfiles st' = sqlfiles st @ files)"
proof (induction rule: resolves_resolvesLines.inducts)
  case (manifest path content files)
  then obtain n where n: "\<And>st :: 'e collect_state. \<exists>st'.
      processLines n fs debug (pathDir path) (scanLines content) st = Some (None, st') \<and>
      sqlfiles st' = sqlfiles st @ files"
    by blast
  from manifest have f: "fs path = Some content" "\<not> scanErr content" by blast+
  have "\<exists>st'. processWithWriter (Suc n) fs debug path st = Some (None, st') \<and>
      sqlfiles st' = sqlfiles st @ files"
    for st :: "'e collect_state"
    using n [of "st\<lparr>printed := printed st @ [ProcessingFile path (pathDir path)]\<rparr>"] f
    by (auto simp: processWithWriter_Suc)
  then show ?case by blast
next
  case (finished dir)
  have "\<exists>st'. processLines 0 fs debug dir [] st = Some (None, st') \<and>
      sqlfiles st' = sqlfiles st @ []" for st :: "'e collect_state"
    by (simp add: processLines.simps)
  then show ?case by auto
next
  case (skipped line dir ls files)
  from skipped have c: "line = [] \<or> HasPrefix line (runes ''#'')" by blast
  show ?case
  proof (intro allI impI)
    fix ls' assume "line # ls = map TrimSpace ls'"
    then obtain l lt where l: "ls' = l # lt" "line = TrimSpace l" "ls = map TrimSpace lt" by auto
    from skipped l(3) obtain n where n: "\<And>st :: 'e collect_state. \<exists>st'.
        processLines n fs debug dir lt st = Some (None, st') \<and>
        sqlfiles st' = sqlfiles st @ files"
      by blast
    have "\<exists>st'. processLines n fs debug dir ls' st = Some (None, st') \<and>
        sqlfiles st' = sqlfiles st @ files"
      for st :: "'e collect_state"
      using n [of st] c l(1,2) by (auto simp: processLines_Cons)
    then show "\<exists>n. \<forall>st :: 'e collect_state. \<exists>st'.
        processLines n fs debug dir ls' st = Some (None, st') \<and>
        sqlfiles st' = sqlfiles st @ files" by blast
  qed
next
  case (nested line dir sub ls files)
  from nested have c: "line \<noteq> []" "\<not> HasPrefix line (runes ''#'')" "HasSuffix line (runes ''.lst'')"
    by blast+
  show ?case
  proof (intro allI impI)
    fix ls' assume "line # ls = map TrimSpace ls'"
    then obtain l lt where l: "ls' = l # lt" "line = TrimSpace l" "ls = map TrimSpace lt" by auto
    from nested obtain n1 where n1: "\<And>st :: 'e collect_state. \<exists>st'.
        processWithWriter n1 fs debug (pathJoin dir line) st = Some (None, st') \<and>
        sqlfiles st' = sqlfiles st @ sub"
      by blast
    from nested l(3) obtain n2 where n2: "\<And>st :: 'e collect_state. \<exists>st'.
        processLines n2 fs debug dir lt st = Some (None, st') \<and>
        sqlfiles st' = sqlfiles st @ files"
      by blast
    let ?n = "max n1 n2"
    have "\<exists>st'. processLines ?n fs debug dir ls' st = Some (None, st') \<and>
        sqlfiles st' = sqlfiles st @ sub @ files"
      for st :: "'e collect_state"
    proof -
      from n1 [of st] obtain st1 where
        "processWithWriter n1 fs debug (pathJoin dir line) st = Some (None, st1)"
        and s1: "sqlfiles st1 = sqlfiles st @ sub" by blast
      from fuel_mono(1) [OF _ this(1), of ?n]
      have a: "processWithWriter ?n fs debug (pathJoin dir line) st = Some (None, st1)" by simp
      from n2 [of st1] obtain st2 where
        "processLines n2 fs debug dir lt st1 = Some (None, st2)"
        and s2: "sqlfiles st2 = sqlfiles st1 @ files" by blast
      from fuel_mono(2) [OF _ this(1), of ?n]
      have b: "processLines ?n fs debug dir lt st1 = Some (None, st2)" by simp
      from a b c l(1,2) s1 s2 show ?thesis by (simp add: processLines_Cons)
    qed
    then show "\<exists>n. \<forall>st :: 'e collect_state. \<exists>st'.
        processLines n fs debug dir ls' st = Some (None, st') \<and>
        sqlfiles st' = sqlfiles st @ sub @ files" by blast
  qed
next
  case (sqlfile line dir ls files)
  from sqlfile have c: "line \<noteq> []" "\<not> HasPrefix line (runes ''#'')"
    "\<not> HasSuffix line (runes ''.lst'')" "HasSuffix line (runes ''.sql'')" by blast+
  show ?case
  proof (intro allI impI)
    fix ls' assume "line # ls = map TrimSpace ls'"
    then obtain l lt where l: "ls' = l # lt" "line = TrimSpace l" "ls = map TrimSpace lt" by auto
    from sqlfile l(3) obtain n where n: "\<And>st :: 'e collect_state. \<exists>st'.
        processLines n fs debug dir lt st = Some (None, st') \<and>
        sqlfiles st' = sqlfiles st @ files"
      by blast
    have "\<exists>st'. processLines n fs debug dir ls' st = Some (None, st') \<and>
        sqlfiles st' = sqlfiles st @ pathJoin dir line # files"
      for st :: "'e collect_state"
      using n [of "st\<lparr>sqlfiles := sqlfiles st @ [pathJoin dir line],
              printed := (if debug then printed st @ [AddingSQLFile line] else printed st)\<rparr>"]
        c l(1,2) by (auto simp: processLines_Cons)
    then show "\<exists>n. \<forall>st :: 'e collect_state. \<exists>st'.
        processLines n fs debug dir ls' st = Some (None, st') \<and>
        sqlfiles st' = sqlfiles st @ pathJoin dir line # files" by blast
  qed
next
  case (unknown line dir ls files)
  from unknown have c: "line \<noteq> []" "\<not> HasPrefix line (runes ''#'')"
    "\<not> HasSuffix line (runes ''.lst'')" "\<not> HasSuffix line (runes ''.sql'')" by blast+
  show ?case
  proof (intro allI impI)
    fix ls' assume "line # ls = map TrimSpace ls'"
    then obtain l lt where l: "ls' = l # lt" "line = TrimSpace l" "ls = map TrimSpace lt" by auto
    from unknown l(3) obtain n where n: "\<And>st :: 'e collect_state. \<exists>st'.
        processLines n fs debug dir lt st = Some (None, st') \<and>
        sqlfiles st' = sqlfiles st @ files"
      by blast
    have "\<exists>st'. processLines n fs debug dir ls' st = Some (None, st') \<and>
        sqlfiles st' = sqlfiles st @ files"
      for st :: "'e collect_state"
      using n [of "st\<lparr>printed := printed st @ [UnknownFileType line]\<rparr>"]
        c l(1,2) by (auto simp: processLines_Cons)
    then show "\<exists>n. \<forall>st :: 'e collect_state. \<exists>st'.
        processLines n fs debug dir ls' st = Some (None, st') \<and>
        sqlfiles st' = sqlfiles st @ files" by blast
  qed
qed

lemmas path_eval = pathDir_def pathJoin_def pathClean_def HasPrefix_def HasSuffix_def
  scanLines_def scanErr_def fits_def utf8len_def dropCR_def TrimSpace_def isSpace_def
  runes_def Let_def

lemma example_resolves:
  "resolves example_fs (runes ''index.lst'') [runes ''a.sql'', runes ''sub/b.sql'']"
proof -
  let ?top = "runes ''a.sql'' @ [10] @ runes ''sub/index.lst'' @ [10]"
  let ?sub = "runes ''b.sql'' @ [10]"
  have f1: "example_fs (runes ''index.lst'') = Some ?top"
    by (simp add: example_fs_def runes_def)
  have f2: "example_fs (runes ''sub/index.lst'') = Some ?sub"
    by (simp add: example_fs_def runes_def)
  have e: "\<not> scanErr ?top" "\<not> scanErr ?sub" by (simp_all add: path_eval)
  have l1: "map TrimSpace (scanLines ?top) = [runes ''a.sql'', runes ''sub/index.lst'']"
    by (simp add: path_eval)
  have l2: "map TrimSpace (scanLines ?sub) = [runes ''b.sql'']"
    by (simp add: path_eval)
  have d1: "pathDir (runes ''index.lst'') = runes ''.''" by (simp add: path_eval)
  have d2: "pathDir (runes ''sub/index.lst'') = runes ''sub''" by (simp add: path_eval)
  have j1: "pathJoin (runes ''.'') (runes ''a.sql'') = runes ''a.sql''" by (simp add: path_eval)
  have j2: "pathJoin (runes ''.'') (runes ''sub/index.lst'') = runes ''sub/index.lst''"
    by (simp add: path_eval)
  have j3: "pathJoin (runes ''sub'') (runes ''b.sql'') = runes ''sub/b.sql''"
    by (simp add: path_eval)
  have "resolvesLines example_fs (runes ''sub'') [runes ''b.sql''] [pathJoin (runes ''sub'') (runes ''b.sql'')]"
    by (rule resolves_resolvesLines.sqlfile) (simp_all add: path_eval resolves_resolvesLines.finished)
  then have "resolves example_fs (runes ''sub/index.lst'') [runes ''sub/b.sql'']"
    unfolding j3 using resolves_resolvesLines.manifest
      [where fs = example_fs and path = "runes ''sub/index.lst''" and content = ?sub, OF f2 e(2)]
    unfolding l2 d2 by blast
  then have "resolves example_fs (pathJoin (runes ''.'') (runes ''sub/index.lst'')) [runes ''sub/b.sql'']"
    unfolding j2 .
  from resolves_resolvesLines.nested [OF _ _ _ this resolves_resolvesLines.finished]
  have "resolvesLines example_fs (runes ''.'') [runes ''sub/index.lst''] [runes ''sub/b.sql'']"
    by (simp add: path_eval)
  from resolves_resolvesLines.sqlfile [OF _ _ _ _ this, of "runes ''a.sql''"]
  have "resolvesLines example_fs (runes ''.'') [runes ''a.sql'', runes ''sub/index.lst'']
      [runes ''a.sql'', runes ''sub/b.sql'']"
    unfolding j1 by (simp add: path_eval)
  then show ?thesis
    using resolves_resolvesLines.manifest
      [where fs = example_fs and path = "runes ''index.lst''" and content = ?top, OF f1 e(1)]
    unfolding l1 d1 by blast
qed

lemma example_process:
  "processWithWriter (Suc (Suc 0)) example_fs False (runes ''index.lst'')
      \<lparr>sqlfiles = [], printed = ([] :: unit message list)\<rparr> =
    Some (None, \<lparr>sqlfiles = [runes ''a.sql'', runes ''sub/b.sql''],
      printed = [ProcessingFile (runes ''index.lst'') (runes ''.''),
                 ProcessingFile (runes ''sub/index.lst'') (runes ''sub'')]\<rparr>)"
  by (simp add: processWithWriter.simps processLines.simps example_fs_def path_eval)

text \<open>
  Conversely, when the resolver returns without an error, the manifest resolves to the
  files it appended: the relation \<open>resolves\<close> holds of nothing else.
\<close>

lemma process_resolves:
  "processWithWriter n fs debug path (st :: 'e collect_state) = Some (None, st') \<Longrightarrow>
     \<exists>files. resolves fs path files \<and> sqlfiles st' = sqlfiles st @ files"
  "processLines n fs debug dir ls (st :: 'e collect_state) = Some (None, st'') \<Longrightarrow>
     \<exists>files. resolvesLines fs dir (map TrimSpace ls) files \<and> sqlfiles st'' = sqlfiles st @ files"
proof (induction n fs debug path st and n fs debug dir ls st arbitrary: st' and st''
    rule: processWithWriter_processLines.induct)
  case (1 fs debug path st)
  then show ?case by (simp add: processWithWriter.simps)
next
  case (2 n fs debug path st)
  from "2.prems" obtain content where c: "fs path = Some content"
    by (auto simp: processWithWriter_Suc split: option.splits)
  let ?st = "st\<lparr>printed := printed st @ [ProcessingFile path (pathDir path)]\<rparr>"
  from "2.prems" c have l: "processLines n fs debug (pathDir path) (scanLines content) ?st = Some (None, st')"
    and e: "\<not> scanErr content"
    by (auto simp: processWithWriter_Suc split: option.splits if_splits)
  from "2.IH" [OF c l] obtain files where
    "resolvesLines fs (pathDir path) (map TrimSpace (scanLines content)) files"
    "sqlfiles st' = sqlfiles ?st @ files" by blast
  with c e show ?case by (auto intro: resolves_resolvesLines.manifest)
next
  case (3 n fs debug dir st)
  then show ?case by (auto simp: processLines.simps intro: resolves_resolvesLines.finished)
next
  case (4 n fs debug dir l ls st)
  let ?line = "TrimSpace l"
  note p = "4.prems" [unfolded processLines_Cons]
  consider (skip) "?line = [] \<or> HasPrefix ?line (runes ''#'')"
    | (lst) "\<not> (?line = [] \<or> HasPrefix ?line (runes ''#''))" "HasSuffix ?line (runes ''.lst'')"
    | (sql) "\<not> (?line = [] \<or> HasPrefix ?line (runes ''#''))" "\<not> HasSuffix ?line (runes ''.lst'')"
        "HasSuffix ?line (runes ''.sql'')"
    | (other) "\<not> (?line = [] \<or> HasPrefix ?line (runes ''#''))" "\<not> HasSuffix ?line (runes ''.lst'')"
        "\<not> HasSuffix ?line (runes ''.sql'')"
    by blast
  then show ?case
  proof cases
    case skip
    from p skip have "processLines n fs debug dir ls st = Some (None, st'')" by simp
    from "4.IH"(1) [OF refl skip this] obtain files where
      "resolvesLines fs dir (map TrimSpace ls) files" "sqlfiles st'' = sqlfiles st @ files" by blast
    with skip show ?thesis by (auto intro: resolves_resolvesLines.skipped)
  next
    case lst
    from p lst obtain s1 where a: "processWithWriter n fs debug (pathJoin dir ?line) st = Some (None, s1)"
      and b: "processLines n fs debug dir ls s1 = Some (None, st'')"
      by (auto split: option.splits)
    from "4.IH"(2) [OF refl lst a] obtain sub where
      s: "resolves fs (pathJoin dir ?line) sub" "sqlfiles s1 = sqlfiles st @ sub" by blast
    from "4.IH"(3) [OF refl lst a refl refl b] obtain files where
      f: "resolvesLines fs dir (map TrimSpace ls) files" "sqlfiles st'' = sqlfiles s1 @ files" by blast
    from lst have "?line \<noteq> []" "\<not> HasPrefix ?line (runes ''#'')" by auto
    from resolves_resolvesLines.nested [OF this lst(2) s(1) f(1)] s(2) f(2)
    show ?thesis by auto
  next
    case sql
    let ?st = "st\<lparr>sqlfiles := sqlfiles st @ [pathJoin dir ?line],
              printed := (if debug then printed st @ [AddingSQLFile ?line] else printed st)\<rparr>"
    from p sql have "processLines n fs debug dir ls ?st = Some (None, st'')" by simp
    from "4.IH"(4) [OF refl sql this] obtain files where
      f: "resolvesLines fs dir (map TrimSpace ls) files" "sqlfiles st'' = sqlfiles ?st @ files" by blast
    from sql have "?line \<noteq> []" "\<not> HasPrefix ?line (runes ''#'')" by auto
    from resolves_resolvesLines.sqlfile [OF this sql(2,3) f(1)] f(2)
    show ?thesis by auto
  next
    case other
    let ?st = "st\<lparr>printed := printed st @ [UnknownFileType ?line]\<rparr>"
    from p other have "processLines n fs debug dir ls ?st = Some (None, st'')" by simp
    from "4.IH"(5) [OF refl other this] obtain files where
      f: "resolvesLines fs dir (map TrimSpace ls) files" "sqlfiles st'' = sqlfiles ?st @ files" by blast
    from other have "?line \<noteq> []" "\<not> HasPrefix ?line (runes ''#'')" by auto
    from resolves_resolvesLines.unknown [OF this other(2,3) f(1)] f(2)
    show ?thesis by auto
  qed
qed


text \<open>
  C7. Whenever a manifest resolves without a read error to the files \<open>files\<close> (nested
  manifests expanded in place, depth first and left to right, every name taken relative
  to the directory of the manifest that holds it), \<^verbatim>\<open>processWithWriter\<close> returns
  without an error for every sufficient bound on the nesting depth, and it appends
  exactly \<open>files\<close>, in that order, to the slice it was given.
\<close>

theorem resolver_document_order:
  assumes "resolves fs path files"
  shows "\<exists>n. \<forall>m\<ge>n. \<forall>st :: 'e collect_state. \<exists>st'.
     processWithWriter m fs debug path st = Some (None, st') \<and>
     sqlfiles st' = sqlfiles st @ files"
proof -
  from resolves_process(1) [OF assms, of debug]
  obtain n where n: "\<And>st :: 'e collect_state. \<exists>st'.
      processWithWriter n fs debug path st = Some (None, st') \<and>
      sqlfiles st' = sqlfiles st @ files" by blast
  have "\<exists>st'. processWithWriter m fs debug path st = Some (None, st') \<and>
      sqlfiles st' = sqlfiles st @ files" if "n \<le> m" for m and st :: "'e collect_state"
    using n [of st] fuel_mono(1) [OF that] by blast
  then show ?thesis by blast
qed

text \<open>
  Witness for C7: the example resolves to \<^verbatim>\<open>a.sql\<close> followed by \<^verbatim>\<open>sub/b.sql\<close>, the
  nested file relative to the directory \<^verbatim>\<open>sub\<close> of its manifest, and the resolver
  returns that list.
\<close>

theorem resolver_document_order_witness:
  "resolves example_fs (runes ''index.lst'') [runes ''a.sql'', runes ''sub/b.sql''] \<and>
   (\<exists>n st'. processWithWriter n example_fs False (runes ''index.lst'')
        \<lparr>sqlfiles = [], printed = ([] :: unit message list)\<rparr> = Some (None, st') \<and>
      sqlfiles st' = [runes ''a.sql'', runes ''sub/b.sql''])"
proof -
  from resolver_document_order [OF example_resolves, of False]
  obtain n where "\<forall>m\<ge>n. \<forall>st :: unit collect_state. \<exists>st'.
     processWithWriter m example_fs False (runes ''index.lst'') st = Some (None, st') \<and>
     sqlfiles st' = sqlfiles st @ [runes ''a.sql'', runes ''sub/b.sql'']" by blast
  then have "\<exists>st'. processWithWriter n example_fs False (runes ''index.lst'')
        \<lparr>sqlfiles = [], printed = ([] :: unit message list)\<rparr> = Some (None, st') \<and>
      sqlfiles st' = sqlfiles \<lparr>sqlfiles = [], printed = ([] :: unit message list)\<rparr> @
        [runes ''a.sql'', runes ''sub/b.sql'']" by blast
  then show ?thesis using example_resolves by auto
qed

section \<open>Properties of the migration driver\<close>

subsection \<open>Executing the statements of a file\<close>

lemma TrimSpace_id:
  assumes "s \<noteq> []" "\<not> isSpace (hd s)" "\<not> isSpace (last s)"
  shows "TrimSpace s = s"
proof -
  from assms(1,2) have 1: "dropWhile isSpace s = s" by (cases s) auto
  from assms(1,3) have "dropWhile isSpace (rev s) = rev s" by (cases "rev s") (auto simp: last_rev [symmetric] hd_rev)
  with 1 show ?thesis by (simp add: TrimSpace_def)
qed

lemma split_trimmed:
  assumes "s \<in> set (splitSQLStatements sql)"
  shows "TrimSpace s = s \<and> s \<noteq> []"
proof -
  from split_cut [of sql] obtain segs where "splitSQLStatements sql = pieces segs" by blast
  with assms obtain x where "s = TrimSpace x" "TrimSpace x \<noteq> []"
    by (auto simp: pieces_def)
  with TrimSpace_ends [of x] TrimSpace_id [of s] show ?thesis by simp
qed

lemma execStatements_runAll:
  assumes "\<forall>s \<in> set stmts. TrimSpace s = s \<and> s \<noteq> []"
    and "runAll ex path i (backend st) stmts = (r, b', evs)"
  shows "\<exists>out. execStatements ex debug path n i stmts st =
     (map_option (\<lambda>(k, err). StatementFailed k err) r,
      st\<lparr>backend := b', events := events st @ evs, stdout := out\<rparr>)"
  using assms
proof (induction stmts arbitrary: i st r b' evs)
  case Nil
  then show ?case by (auto intro!: exI [of _ "stdout st"])
next
  case (Cons s ss)
  let ?st1 = "if debug then st\<lparr>stdout := stdout st @ [ExecutingStatement (i + 1) n]\<rparr> else st"
  from Cons.prems(1) have t: "TrimSpace s = s" "s \<noteq> []"
    and rest: "\<forall>s \<in> set ss. TrimSpace s = s \<and> s \<noteq> []" by auto
  have b1: "backend ?st1 = backend st" and e1: "events ?st1 = events st" by simp_all
  obtain x b1 where x: "Execute ex (backend st) s = (x, b1)" by (cases "Execute ex (backend st) s")
  show ?case
  proof (cases x)
    case (Some err)
    with x Cons.prems(2) have "r = Some (i + 1, err)" "b' = b1"
      "evs = [Statement path (i + 1) s (Some err)]" by auto
    with x Some t show ?thesis
      by (auto simp: Let_def intro!: exI [of _ "stdout ?st1"])
  next
    case None
    let ?st2 = "?st1\<lparr>backend := b1, events := events ?st1 @ [Statement path (i + 1) s None]\<rparr>"
    obtain r2 b2 evs2 where r2: "runAll ex path (i + 1) b1 ss = (r2, b2, evs2)"
      by (cases "runAll ex path (i + 1) b1 ss")
    with x None Cons.prems(2) have eq: "r = r2" "b' = b2" "evs = Statement path (i + 1) s None # evs2"
      by auto
    have "runAll ex path (i + 1) (backend ?st2) ss = (r2, b2, evs2)" using r2 by simp
    from Cons.IH [OF rest this] obtain out where
      "execStatements ex debug path n (i + 1) ss ?st2 =
         (map_option (\<lambda>(k, err). StatementFailed k err) r2,
          ?st2\<lparr>backend := b2, events := events ?st2 @ evs2, stdout := out\<rparr>)" by blast
    with x None t eq show ?thesis
      by (auto simp: Let_def intro!: exI [of _ out])
  qed
qed

lemma runAll_failure:
  assumes "runAll ex path i b stmts = (Some (k, err), b', evs)"
  shows "i < k \<and> k \<le> i + length stmts \<and>
     evs = map (\<lambda>j. Statement path (i + j + 1) (stmts ! j) None) [0..<k - i - 1] @
           [Statement path k (stmts ! (k - i - 1)) (Some err)]"
  using assms
proof (induction stmts arbitrary: i b evs)
  case Nil
  then show ?case by simp
next
  case (Cons s ss)
  obtain x b1 where x: "Execute ex b s = (x, b1)" by (cases "Execute ex b s")
  show ?case
  proof (cases x)
    case (Some e)
    with x Cons.prems show ?thesis by auto
  next
    case None
    obtain r2 b2 evs2 where r2: "runAll ex path (i + 1) b1 ss = (r2, b2, evs2)"
      by (cases "runAll ex path (i + 1) b1 ss")
    with x None Cons.prems have eq: "r2 = Some (k, err)" "evs = Statement path (i + 1) s None # evs2"
      "b2 = b'" by auto
    from Cons.IH [OF r2 [unfolded eq(1,3)]]
    have k: "i + 1 < k" "k \<le> i + 1 + length ss"
      and evs2: "evs2 = map (\<lambda>j. Statement path (i + 1 + j + 1) (ss ! j) None) [0..<k - (i + 1) - 1] @
           [Statement path k (ss ! (k - (i + 1) - 1)) (Some err)]" by auto
    from k obtain d where d: "k = i + 2 + d" by (metis add_2_eq_Suc' less_iff_Suc_add add_Suc_right add_Suc Suc_eq_plus1)
    have m: "map (\<lambda>j. Statement path (i + j + 1) ((s # ss) ! j) None) [0..<Suc d] =
        Statement path (i + 1) s None # map (\<lambda>j. Statement path (i + 1 + j + 1) (ss ! j) None) [0..<d]"
      by (simp add: upt_conv_Cons map_Suc_upt [symmetric] del: upt_Suc)
    have k1: "k - i - 1 = Suc d" "k - (i + 1) - 1 = d" using d by simp_all
    have "evs = map (\<lambda>j. Statement path (i + j + 1) ((s # ss) ! j) None) [0..<Suc d] @
           [Statement path k ((s # ss) ! Suc d) (Some err)]"
      unfolding m eq(2) evs2 k1 by simp
    with k show ?thesis unfolding k1 by simp
  qed
qed

lemma runAll_statements:
  "runAll ex path i b stmts = (r, b', evs) \<Longrightarrow> inserted evs = []"
proof (induction stmts arbitrary: i b r b' evs)
  case Nil
  then show ?case by simp
next
  case (Cons s ss)
  obtain x b1 where x: "Execute ex b s = (x, b1)" by (cases "Execute ex b s")
  obtain r2 b2 evs2 where r2: "runAll ex path (i + 1) b1 ss = (r2, b2, evs2)"
    by (cases "runAll ex path (i + 1) b1 ss")
  from Cons.IH [OF r2] have "inserted evs2 = []" .
  with x r2 Cons.prems show ?case by (cases x) auto
qed

lemma inserted_append: "inserted (xs @ ys) = inserted xs @ inserted ys"
  by (induction xs rule: inserted.induct) simp_all

lemma executeSQL_outcome:
  "\<exists>out. executeSQLWithWriter ex fs debug f st =
     (case fs f of
        None \<Rightarrow> (Some (SqlReadFailed f), st\<lparr>stdout := out\<rparr>)
      | Some sql \<Rightarrow>
          (case runAll ex f 0 (backend st) (splitSQLStatements sql) of
             (r, b', evs) \<Rightarrow>
               (map_option (\<lambda>(k, err). StatementFailed k err) r,
                st\<lparr>backend := b', events := events st @ evs, stdout := out\<rparr>)))"
proof (cases "fs f")
  case None
  then show ?thesis
    by (intro exI [of _ "stdout st @ [ExecutingSQLFile f]"]) (simp add: executeSQLWithWriter_def)
next
  case (Some sql)
  let ?st1 = "st\<lparr>stdout := stdout st @ [ExecutingSQLFile f]\<rparr>"
  let ?stmts = "splitSQLStatements sql"
  obtain r b' evs where r: "runAll ex f 0 (backend ?st1) ?stmts = (r, b', evs)"
    by (cases "runAll ex f 0 (backend ?st1) ?stmts")
  have t: "\<forall>s \<in> set ?stmts. TrimSpace s = s \<and> s \<noteq> []" using split_trimmed by blast
  from execStatements_runAll [OF t r, of debug "length ?stmts"] obtain out where
    e: "execStatements ex debug f (length ?stmts) 0 ?stmts ?st1 =
      (map_option (\<lambda>(k, err). StatementFailed k err) r,
       ?st1\<lparr>backend := b', events := events ?st1 @ evs, stdout := out\<rparr>)" by blast
  from r have r': "runAll ex f 0 (backend st) ?stmts = (r, b', evs)" by simp
  show ?thesis
  proof (cases r)
    case None
    with e r' Some show ?thesis
      by (intro exI [of _ "out @ [SuccessfullyExecuted f (length ?stmts)]"])
        (simp add: executeSQLWithWriter_def Let_def)
  next
    case (Some a)
    with e r' \<open>fs f = Some sql\<close> show ?thesis
      by (intro exI [of _ out]) (cases a, simp add: executeSQLWithWriter_def Let_def)
  qed
qed

lemma runAll_failure_state:
  assumes "runAll ex path i b stmts = (Some (k, err), b', evs)"
  shows "\<exists>b1 evs1. runAll ex path i b (take (k - i - 1) stmts) = (None, b1, evs1) \<and>
     Execute ex b1 (stmts ! (k - i - 1)) = (Some err, b')"
  using assms
proof (induction stmts arbitrary: i b evs)
  case Nil
  then show ?case by simp
next
  case (Cons s ss)
  obtain x b1 where x: "Execute ex b s = (x, b1)" by (cases "Execute ex b s")
  show ?case
  proof (cases x)
    case (Some e)
    with x Cons.prems show ?thesis by auto
  next
    case None
    obtain r2 b2 evs2 where r2: "runAll ex path (i + 1) b1 ss = (r2, b2, evs2)"
      by (cases "runAll ex path (i + 1) b1 ss")
    with x None Cons.prems have eq: "r2 = Some (k, err)" "b2 = b'" by auto
    from runAll_failure [OF r2 [unfolded eq]] have k: "i + 1 < k" by simp
    then obtain d where d: "k = i + 2 + d"
      by (metis add_2_eq_Suc' less_iff_Suc_add add_Suc_right add_Suc Suc_eq_plus1)
    from Cons.IH [OF r2 [unfolded eq]] obtain b3 evs3 where
      "runAll ex path (i + 1) b1 (take (k - (i + 1) - 1) ss) = (None, b3, evs3)"
      "Execute ex b3 (ss ! (k - (i + 1) - 1)) = (Some err, b')" by blast
    with x None show ?thesis unfolding d by simp
  qed
qed

subsection \<open>One file\<close>

lemmas run_eval = example_sql_def example_store_def example_row_def mockExecutor_def fresh_def
  decide_def rowVersion_def asString_def addApplied_def

lemma example_parse:
  "parseMigrationInfo (\<lambda>c. runes ''X'') example_store (runes ''m.sql'') =
     (\<lparr>Version = runes ''1'', Description = [], Filename = runes ''m.sql'',
       Checksum = runes ''X''\<rparr>, None)"
  by (simp add: example_store_def example_sql_def parse_eval)

lemma example_split:
  "splitSQLStatements example_sql =
     [runes ''-- version: 1'' @ [10] @ runes ''SELECT 1'', runes ''SELECT 2'', runes ''SELECT 3'']"
  by (simp add: example_sql_def split_eval)

lemma runFile_apply:
  fixes ex :: "('b, 'e) executor" and st :: "('b, 'e) run_state"
  assumes p: "parseMigrationInfo md5hex fs f = (info, perr :: 'e error option)"
    and a: "applyOutcome (Version info \<noteq> []) ex fs f info (backend st) = (x, b', evs)"
    and c: "Force cfg \<or> Version info = [] \<or> applied (Version info) = None"
    and r: "runFile cfg ex md5hex fs applied f st = (r, st')"
  shows "r = x \<and> backend st' = b' \<and> events st' = events st @ evs \<and>
     migrationsSkipped st' = migrationsSkipped st \<and>
     migrationsApplied st' = migrationsApplied st + (if x = None then 1 else 0) \<and>
     stderr st' = stderr st @
       (case fs f of
          None \<Rightarrow> [ErrorExecuting f (SqlReadFailed f)]
        | Some sql \<Rightarrow>
            (case fst (runAll ex f 0 (backend st) (splitSQLStatements sql)) of
               Some (k, err) \<Rightarrow> [ErrorExecuting f (StatementFailed k err)]
             | None \<Rightarrow> []))"
proof -
  define st1 where "st1 = (case perr of
       Some err \<Rightarrow> st\<lparr>stdout := stdout st @ [CouldNotParse f err]\<rparr> | None \<Rightarrow> st)"
  have s1: "backend st1 = backend st" "events st1 = events st"
    "migrationsApplied st1 = migrationsApplied st" "migrationsSkipped st1 = migrationsSkipped st"
    "stderr st1 = stderr st"
    by (simp_all add: st1_def split: option.splits)
  obtain xr st2 where e: "executeSQLWithWriter ex fs (Debug cfg) f st1 = (xr, st2)"
    by (cases "executeSQLWithWriter ex fs (Debug cfg) f st1")
  define rec where "rec = (case recordMigration ex info st2 of
       (Some err, st') \<Rightarrow> st'\<lparr>stdout := stdout st' @ [CouldNotRecord (Version info) err]\<rparr>
     | (None, st') \<Rightarrow> st')"
  have rf: "runFile cfg ex md5hex fs applied f st =
      (case xr of
         Some err \<Rightarrow> (Some 1, st2\<lparr>stderr := stderr st2 @ [ErrorExecuting f err]\<rparr>)
       | None \<Rightarrow>
           (None, (if Version info \<noteq> [] then rec else st2)
              \<lparr>migrationsApplied := migrationsApplied (if Version info \<noteq> [] then rec else st2) + 1\<rparr>))"
    using c unfolding runFile_def p prod.case Let_def st1_def [symmetric] e rec_def [symmetric]
    by (auto split: option.splits)
  have rc: "backend rec = fst (snd (case Execute ex (backend st2) (recordSQL info) of
          (res, b'') \<Rightarrow> (res, b'', [Record info res])))"
      "events rec = events st2 @ snd (snd (case Execute ex (backend st2) (recordSQL info) of
          (res, b'') \<Rightarrow> (res, b'', [Record info res])))"
      "migrationsApplied rec = migrationsApplied st2" "migrationsSkipped rec = migrationsSkipped st2"
      "stderr rec = stderr st2"
    by (auto simp: rec_def recordMigration_def split: prod.splits option.splits)
  from executeSQL_outcome [of ex fs "Debug cfg" f st1] obtain out where
    o: "(xr, st2) = (case fs f of
        None \<Rightarrow> (Some (SqlReadFailed f), st1\<lparr>stdout := out\<rparr>)
      | Some sql \<Rightarrow>
          (case runAll ex f 0 (backend st1) (splitSQLStatements sql) of
             (r, b', evs) \<Rightarrow>
               (map_option (\<lambda>(k, err). StatementFailed k err) r,
                st1\<lparr>backend := b', events := events st1 @ evs, stdout := out\<rparr>)))"
    unfolding e by blast
  show ?thesis
  proof (cases "fs f")
    case None
    with o have "xr = Some (SqlReadFailed f)" "st2 = st1\<lparr>stdout := out\<rparr>" by simp_all
    moreover from None a have "x = Some 1" "b' = backend st" "evs = []"
      by (simp_all add: applyOutcome_def)
    ultimately show ?thesis using r s1 None unfolding rf by auto
  next
    case (Some sql)
    obtain ra ba ea where ra: "runAll ex f 0 (backend st) (splitSQLStatements sql) = (ra, ba, ea)"
      by (cases "runAll ex f 0 (backend st) (splitSQLStatements sql)")
    with o Some s1 have x2: "xr = map_option (\<lambda>(k, err). StatementFailed k err) ra"
      "st2 = st1\<lparr>backend := ba, events := events st @ ea, stdout := out\<rparr>" by simp_all
    show ?thesis
    proof (cases ra)
      case fail: (Some failure)
      with Some ra a have "x = Some 1" "b' = ba" "evs = ea" by (simp_all add: applyOutcome_def)
      with fail x2 r s1 Some ra show ?thesis unfolding rf by (cases failure) auto
    next
      case None
      show ?thesis
      proof (cases "Version info \<noteq> []")
        case True
        obtain res b2 where ex2: "Execute ex ba (recordSQL info) = (res, b2)"
          by (cases "Execute ex ba (recordSQL info)")
        with True None Some ra a have "x = None" "b' = b2" "evs = ea @ [Record info res]"
          by (simp_all add: applyOutcome_def)
        with None x2 r s1 True rc ex2 Some ra show ?thesis unfolding rf by auto
      next
        case False
        with None Some ra a have "x = None" "b' = ba" "evs = ea" by (simp_all add: applyOutcome_def)
        with None x2 r s1 False Some ra show ?thesis unfolding rf by auto
      qed
    qed
  qed
qed

lemma runFile_known:
  fixes ex :: "('b, 'e) executor" and st :: "('b, 'e) run_state"
  assumes p: "parseMigrationInfo md5hex fs f = (info, perr :: 'e error option)"
    and c: "\<not> Force cfg" "Version info \<noteq> []" "applied (Version info) = Some c"
    and r: "runFile cfg ex md5hex fs applied f st = (r, st')"
  shows "backend st' = backend st \<and> events st' = events st \<and>
     migrationsApplied st' = migrationsApplied st \<and>
     (if c = Checksum info
      then r = None \<and> migrationsSkipped st' = migrationsSkipped st + 1 \<and> stderr st' = stderr st
      else r = Some 1 \<and> migrationsSkipped st' = migrationsSkipped st \<and>
           stderr st' = stderr st @ [ChecksumMismatch (Version info) f c (Checksum info)])"
  using r c unfolding runFile_def p prod.case Let_def
  by (auto split: option.splits)

lemma decide_cases:
  "decide force applied info = AlwaysApply \<longleftrightarrow> Version info = []"
  "decide force applied info = Apply \<longleftrightarrow>
     Version info \<noteq> [] \<and> (force \<or> applied (Version info) = None)"
  "decide force applied info = Skip \<longleftrightarrow>
     Version info \<noteq> [] \<and> \<not> force \<and> applied (Version info) = Some (Checksum info)"
  "decide force applied info = Reject \<longleftrightarrow>
     Version info \<noteq> [] \<and> \<not> force \<and>
     (\<exists>c. applied (Version info) = Some c \<and> c \<noteq> Checksum info)"
  by (auto simp: decide_def split: option.splits)

text \<open>
  C1. For a file whose header parses to \<open>info\<close>, the driver does what the decision for
  it says (\<open>fileOutcome\<close>). A file without a version is executed and no ledger row is
  inserted for it. A versioned file whose version is not in the applied-state mapping is
  executed and, when that succeeds, recorded as the last call. A versioned file whose
  version is present with the same checksum is skipped: no call is made and the skipped
  counter goes up. A versioned file whose version is present with another checksum ends
  the run with exit code 1 before any call, with the mismatch reported. With the force
  flag a versioned file is executed and recorded whatever the mapping holds. The loop
  goes on to the next file exactly when the body did not end the run.
\<close>

theorem per_file_decision:
  fixes ex :: "('b, 'e) executor" and st :: "('b, 'e) run_state"
  assumes p: "parseMigrationInfo md5hex fs f = (info, perr :: 'e error option)"
    and r: "runFile cfg ex md5hex fs applied f st = (r, st')"
  shows "(r, backend st', events st') =
       (case fileOutcome (Force cfg) ex fs applied f info (backend st) of
          (x, b', evs) \<Rightarrow> (x, b', events st @ evs)) \<and>
     migrationsSkipped st' = migrationsSkipped st +
       (if decide (Force cfg) applied info = Skip then 1 else 0) \<and>
     migrationsApplied st' = migrationsApplied st +
       (if r = None \<and> decide (Force cfg) applied info \<noteq> Skip then 1 else 0) \<and>
     (decide (Force cfg) applied info = AlwaysApply \<longrightarrow>
        inserted (events st') = inserted (events st)) \<and>
     (decide (Force cfg) applied info = Apply \<and> r = None \<longrightarrow>
        (\<exists>evs res. events st' = events st @ evs @ [Record info res] \<and> inserted evs = [])) \<and>
     (decide (Force cfg) applied info = Skip \<longrightarrow>
        r = None \<and> backend st' = backend st \<and> events st' = events st) \<and>
     (decide (Force cfg) applied info = Reject \<longrightarrow>
        r = Some 1 \<and> backend st' = backend st \<and> events st' = events st \<and>
        (\<exists>c. applied (Version info) = Some c \<and>
           stderr st' = stderr st @ [ChecksumMismatch (Version info) f c (Checksum info)])) \<and>
     runLoop cfg ex md5hex fs applied (f # rest) st =
       (if r = None then runLoop cfg ex md5hex fs applied rest st' else (r, st'))"
proof -
  let ?d = "decide (Force cfg) applied info"
  have loop: "runLoop cfg ex md5hex fs applied (f # rest) st =
       (if r = None then runLoop cfg ex md5hex fs applied rest st' else (r, st'))"
    using r by (cases r) simp_all
  show ?thesis
  proof (cases ?d)
    case AlwaysApply
    then have v: "Version info = []" by (simp add: decide_cases)
    obtain x b' evs where a: "applyOutcome (Version info \<noteq> []) ex fs f info (backend st) = (x, b', evs)"
      by (cases "applyOutcome (Version info \<noteq> []) ex fs f info (backend st)")
    from runFile_apply [OF p a _ r] v
    have o: "r = x" "backend st' = b'" "events st' = events st @ evs"
      "migrationsSkipped st' = migrationsSkipped st"
      "migrationsApplied st' = migrationsApplied st + (if x = None then 1 else 0)" by simp_all
    have i: "inserted evs = []"
      using a v runAll_statements [of ex f 0 "backend st"]
      by (auto simp: applyOutcome_def split: option.splits prod.splits)
    from a v AlwaysApply have "fileOutcome (Force cfg) ex fs applied f info (backend st) = (x, b', evs)"
      by (simp add: fileOutcome_def)
    with o i AlwaysApply loop show ?thesis by (simp add: inserted_append)
  next
    case Apply
    then have v: "Version info \<noteq> []" "Force cfg \<or> applied (Version info) = None"
      by (simp_all add: decide_cases)
    obtain x b' evs where a: "applyOutcome (Version info \<noteq> []) ex fs f info (backend st) = (x, b', evs)"
      by (cases "applyOutcome (Version info \<noteq> []) ex fs f info (backend st)")
    from v(2) have "Force cfg \<or> Version info = [] \<or> applied (Version info) = None" by auto
    from runFile_apply [OF p a this r]
    have o: "r = x" "backend st' = b'" "events st' = events st @ evs"
      "migrationsSkipped st' = migrationsSkipped st"
      "migrationsApplied st' = migrationsApplied st + (if x = None then 1 else 0)" by simp_all
    have i: "\<exists>evs' res. evs = evs' @ [Record info res] \<and> inserted evs' = []" if "x = None"
      using a v that runAll_statements [of ex f 0 "backend st"]
      by (auto simp: applyOutcome_def split: option.splits prod.splits)
    from a v Apply have "fileOutcome (Force cfg) ex fs applied f info (backend st) = (x, b', evs)"
      by (simp add: fileOutcome_def)
    with o i Apply loop show ?thesis by auto
  next
    case Skip
    then have v: "Version info \<noteq> []" "\<not> Force cfg" "applied (Version info) = Some (Checksum info)"
      by (simp_all add: decide_cases)
    from runFile_known [OF p v(2,1,3) r] Skip loop show ?thesis
      by (simp add: fileOutcome_def)
  next
    case Reject
    then obtain c where v: "Version info \<noteq> []" "\<not> Force cfg" "applied (Version info) = Some c"
      "c \<noteq> Checksum info" by (auto simp: decide_cases)
    from runFile_known [OF p v(2,1,3) r] v(3,4) Reject loop show ?thesis
      by (simp add: fileOutcome_def)
  qed
qed

text \<open>
  Witness for C1: version 1 is in the applied-state mapping with the checksum \<^verbatim>\<open>X\<close>
  of the file, so the file is skipped without a call.
\<close>

theorem per_file_decision_witness:
  "decide False [runes ''1'' \<mapsto> runes ''X'']
      \<lparr>Version = runes ''1'', Description = [], Filename = runes ''m.sql'',
        Checksum = runes ''X''\<rparr> = Skip \<and>
   fst (runFile \<lparr>Path = runes ''index.lst'', Force = False, Debug = False\<rparr>
      (mockExecutor [] (Inr [])) (\<lambda>c. runes ''X'') example_store
      [runes ''1'' \<mapsto> runes ''X''] (runes ''m.sql'') (fresh [])) = None \<and>
   events (snd (runFile \<lparr>Path = runes ''index.lst'', Force = False, Debug = False\<rparr>
      (mockExecutor [] (Inr [])) (\<lambda>c. runes ''X'') example_store
      [runes ''1'' \<mapsto> runes ''X''] (runes ''m.sql'') (fresh []))) = [] \<and>
   migrationsSkipped (snd (runFile \<lparr>Path = runes ''index.lst'', Force = False, Debug = False\<rparr>
      (mockExecutor [] (Inr [])) (\<lambda>c. runes ''X'') example_store
      [runes ''1'' \<mapsto> runes ''X''] (runes ''m.sql'') (fresh []))) = 1"
proof -
  let ?cfg = "\<lparr>Path = runes ''index.lst'', Force = False, Debug = False\<rparr>"
  let ?info = "\<lparr>Version = runes ''1'', Description = [], Filename = runes ''m.sql'',
        Checksum = runes ''X''\<rparr>"
  let ?run = "runFile ?cfg (mockExecutor [] (Inr [])) (\<lambda>c. runes ''X'') example_store
      [runes ''1'' \<mapsto> runes ''X''] (runes ''m.sql'') (fresh [])"
  have d: "decide (Force ?cfg) [runes ''1'' \<mapsto> runes ''X''] ?info = Skip"
    by (simp add: decide_def runes_def)
  have r: "?run = (fst ?run, snd ?run)" by simp
  from per_file_decision [OF example_parse r, of "[]"] d
  have "fst ?run = None \<and> events (snd ?run) = events (fresh [] :: (gostring list, unit) run_state) \<and>
    migrationsSkipped (snd ?run) = migrationsSkipped (fresh [] :: (gostring list, unit) run_state) + 1"
    by simp
  with d show ?thesis by (simp add: fresh_def)
qed

text \<open>
  C4. When a file is applied and its \<open>k\<close>-th statement is the first to fail, the run
  ends at once with exit code 1 and the error names \<open>k\<close>, counted from 1. The calls
  made for the file are its first \<open>k\<close> statements in order, the last one failing, so
  no later statement and no later file is executed (the result does not depend on the
  files that follow). The database is the one the failing call left, on top of the
  earlier statements, which all succeeded: nothing is undone. No ledger row is inserted
  and the file is not counted as applied.
\<close>

theorem failing_statement_aborts:
  fixes ex :: "('b, 'e) executor" and st :: "('b, 'e) run_state"
  assumes p: "parseMigrationInfo md5hex fs f = (info, perr :: 'e error option)"
    and d: "decide (Force cfg) applied info = AlwaysApply \<or>
            decide (Force cfg) applied info = Apply"
    and f: "fs f = Some sql"
    and a: "runAll ex f 0 (backend st) (splitSQLStatements sql) = (Some (k, err), b', evs)"
    and r: "runLoop cfg ex md5hex fs applied (f # rest) st = (r, st')"
  shows "r = Some 1 \<and>
     stderr st' = stderr st @ [ErrorExecuting f (StatementFailed k err)] \<and>
     0 < k \<and> k \<le> length (splitSQLStatements sql) \<and>
     events st' = events st @
       map (\<lambda>j. Statement f (j + 1) (splitSQLStatements sql ! j) None) [0..<k - 1] @
       [Statement f k (splitSQLStatements sql ! (k - 1)) (Some err)] \<and>
     backend st' = b' \<and>
     (\<exists>b1 evs1. runAll ex f 0 (backend st) (take (k - 1) (splitSQLStatements sql)) = (None, b1, evs1) \<and>
        Execute ex b1 (splitSQLStatements sql ! (k - 1)) = (Some err, b')) \<and>
     inserted (events st') = inserted (events st) \<and>
     migrationsApplied st' = migrationsApplied st"
proof -
  obtain r1 st1 where r1: "runFile cfg ex md5hex fs applied f st = (r1, st1)"
    by (cases "runFile cfg ex md5hex fs applied f st")
  from d have c: "Force cfg \<or> Version info = [] \<or> applied (Version info) = None"
    by (auto simp: decide_cases)
  from f a have o: "applyOutcome (Version info \<noteq> []) ex fs f info (backend st) = (Some 1, b', evs)"
    by (simp add: applyOutcome_def)
  from runFile_apply [OF p o c r1] f a
  have x: "r1 = Some 1" "backend st1 = b'" "events st1 = events st @ evs"
    "migrationsApplied st1 = migrationsApplied st"
    "stderr st1 = stderr st @ [ErrorExecuting f (StatementFailed k err)]" by simp_all
  from r r1 x(1) have e: "r = Some 1" "st' = st1" by simp_all
  from runAll_failure [OF a]
  have k: "0 < k" "k \<le> length (splitSQLStatements sql)"
    and evs: "evs = map (\<lambda>j. Statement f (j + 1) (splitSQLStatements sql ! j) None) [0..<k - 1] @
       [Statement f k (splitSQLStatements sql ! (k - 1)) (Some err)]" by simp_all
  from runAll_failure_state [OF a]
  have s: "\<exists>b1 evs1. runAll ex f 0 (backend st) (take (k - 1) (splitSQLStatements sql)) = (None, b1, evs1) \<and>
        Execute ex b1 (splitSQLStatements sql ! (k - 1)) = (Some err, b')" by simp
  from runAll_statements [OF a] have i: "inserted (events st1) = inserted (events st)"
    by (simp add: x(3) inserted_append)
  from e x k evs s i show ?thesis by simp
qed


text \<open>
  Witness for C4: the database fails on \<^verbatim>\<open>SELECT 2\<close>, the second statement of
  \<^verbatim>\<open>m.sql\<close>. The run ends with exit code 1 and reports statement 2, the first
  statement stays executed, the file \<^verbatim>\<open>n.sql\<close> is never touched and no ledger row
  is inserted.
\<close>

theorem failing_statement_aborts_witness:
  "fst (runLoop \<lparr>Path = runes ''index.lst'', Force = False, Debug = False\<rparr>
      (mockExecutor [runes ''SELECT 2''] (Inr [])) (\<lambda>c. runes ''X'') example_store
      Map.empty [runes ''m.sql'', runes ''n.sql''] (fresh [])) = Some 1 \<and>
   stderr (snd (runLoop \<lparr>Path = runes ''index.lst'', Force = False, Debug = False\<rparr>
      (mockExecutor [runes ''SELECT 2''] (Inr [])) (\<lambda>c. runes ''X'') example_store
      Map.empty [runes ''m.sql'', runes ''n.sql''] (fresh []))) =
     [ErrorExecuting (runes ''m.sql'') (StatementFailed 2 ())] \<and>
   backend (snd (runLoop \<lparr>Path = runes ''index.lst'', Force = False, Debug = False\<rparr>
      (mockExecutor [runes ''SELECT 2''] (Inr [])) (\<lambda>c. runes ''X'') example_store
      Map.empty [runes ''m.sql'', runes ''n.sql''] (fresh []))) =
     [runes ''-- version: 1'' @ [10] @ runes ''SELECT 1''] \<and>
   inserted (events (snd (runLoop \<lparr>Path = runes ''index.lst'', Force = False, Debug = False\<rparr>
      (mockExecutor [runes ''SELECT 2''] (Inr [])) (\<lambda>c. runes ''X'') example_store
      Map.empty [runes ''m.sql'', runes ''n.sql''] (fresh [])))) = []"
proof -
  let ?cfg = "\<lparr>Path = runes ''index.lst'', Force = False, Debug = False\<rparr>"
  let ?ex = "mockExecutor [runes ''SELECT 2''] (Inr [])"
  let ?info = "\<lparr>Version = runes ''1'', Description = [], Filename = runes ''m.sql'',
        Checksum = runes ''X''\<rparr>"
  let ?s1 = "runes ''-- version: 1'' @ [10] @ runes ''SELECT 1''"
  let ?run = "runLoop ?cfg ?ex (\<lambda>c. runes ''X'') example_store
      Map.empty [runes ''m.sql'', runes ''n.sql''] (fresh [])"
  have d: "decide (Force ?cfg) Map.empty ?info = AlwaysApply \<or>
      decide (Force ?cfg) Map.empty ?info = Apply"
    by (simp add: decide_def runes_def)
  have f: "example_store (runes ''m.sql'') = Some example_sql"
    by (simp add: example_store_def)
  have a: "runAll ?ex (runes ''m.sql'') 0 (backend (fresh [] :: (gostring list, unit) run_state))
      (splitSQLStatements example_sql) =
      (Some (2, ()), [?s1],
       [Statement (runes ''m.sql'') 1 ?s1 None,
        Statement (runes ''m.sql'') 2 (runes ''SELECT 2'') (Some ())])"
    unfolding example_split by (simp add: mockExecutor_def fresh_def runes_def)
  have r: "?run = (fst ?run, snd ?run)" by simp
  from failing_statement_aborts [OF example_parse d f a r]
  show ?thesis by (simp add: fresh_def)
qed

subsection \<open>The ledger rows a run inserts\<close>

lemma parse_info_indep:
  "fst (parseMigrationInfo md5hex fs f :: MigrationInfo \<times> 'a error option) =
   fst (parseMigrationInfo md5hex fs f :: MigrationInfo \<times> 'c error option)"
  by (simp add: parseMigrationInfo_def Let_def split: option.splits)

lemma fileVersions_Cons:
  assumes "parseMigrationInfo md5hex fs f = (info, perr :: 'e error option)"
  shows "fileVersions md5hex fs (f # rest) =
     (if Version info \<noteq> [] then Version info # fileVersions md5hex fs rest
      else fileVersions md5hex fs rest)"
proof -
  have "fst (parseMigrationInfo md5hex fs f :: MigrationInfo \<times> unit error option) = info"
    using parse_info_indep [of md5hex fs f, where 'a = unit and 'c = 'e] assms by simp
  then show ?thesis by (simp add: fileVersions_def)
qed

lemma dom_foldl_addApplied:
  "dom (foldl addApplied m rows) = dom m \<union> {v \<in> set (map rowVersion rows). v \<noteq> []}"
  by (induction rows arbitrary: m) (auto simp: addApplied_def rowVersion_def Let_def)

lemma runFile_inserted:
  fixes ex :: "('b, 'e) executor" and st :: "('b, 'e) run_state"
  assumes p: "parseMigrationInfo md5hex fs f = (info, perr :: 'e error option)"
    and n: "\<not> Force cfg"
    and r: "runFile cfg ex md5hex fs applied f st = (r, st')"
  shows "inserted (events st') = inserted (events st) \<or>
     inserted (events st') = inserted (events st) @ [Version info] \<and>
       Version info \<noteq> [] \<and> applied (Version info) = None"
proof (cases "Version info \<noteq> [] \<and> applied (Version info) \<noteq> None")
  case True
  then obtain c where "applied (Version info) = Some c" by auto
  from runFile_known [OF p n _ this r] True show ?thesis by simp
next
  case False
  then have c: "Force cfg \<or> Version info = [] \<or> applied (Version info) = None" by auto
  obtain x b' evs where a: "applyOutcome (Version info \<noteq> []) ex fs f info (backend st) = (x, b', evs)"
    by (cases "applyOutcome (Version info \<noteq> []) ex fs f info (backend st)")
  from runFile_apply [OF p a c r] have e: "events st' = events st @ evs" by simp
  have "inserted evs = [] \<or> inserted evs = [Version info] \<and> Version info \<noteq> []"
  proof (cases "fs f")
    case None
    with a show ?thesis by (simp add: applyOutcome_def)
  next
    case (Some sql)
    obtain ra ba ea where ra: "runAll ex f 0 (backend st) (splitSQLStatements sql) = (ra, ba, ea)"
      by (cases "runAll ex f 0 (backend st) (splitSQLStatements sql)")
    from runAll_statements [OF ra] have i: "inserted ea = []" .
    obtain res b2 where x: "Execute ex ba (recordSQL info) = (res, b2)"
      by (cases "Execute ex ba (recordSQL info)")
    from a Some ra x i show ?thesis
      by (cases ra; cases res) (auto simp: applyOutcome_def inserted_append split: if_splits)
  qed
  with e False n show ?thesis by (auto simp: inserted_append)
qed

lemma runLoop_inserted:
  fixes ex :: "('b, 'e) executor" and st :: "('b, 'e) run_state"
  assumes "\<not> Force cfg" and "distinct (fileVersions md5hex fs files)"
    and "runLoop cfg ex md5hex fs applied files st = (r, st')"
  shows "\<exists>new. inserted (events st') = inserted (events st) @ new \<and> distinct new \<and>
     set new \<subseteq> set (fileVersions md5hex fs files) - dom applied"
  using assms(2,3)
proof (induction files arbitrary: st)
  case Nil
  then show ?case by simp
next
  case (Cons f rest)
  obtain info and perr :: "'e error option"
    where p: "parseMigrationInfo md5hex fs f = (info, perr)"
    by (cases "parseMigrationInfo md5hex fs f :: MigrationInfo \<times> 'e error option")
  note fv = fileVersions_Cons [OF p, of rest]
  obtain r1 st1 where r1: "runFile cfg ex md5hex fs applied f st = (r1, st1)"
    by (cases "runFile cfg ex md5hex fs applied f st")
  from Cons.prems(1) have dr: "distinct (fileVersions md5hex fs rest)"
    unfolding fv by (simp split: if_splits)
  from runFile_inserted [OF p assms(1) r1]
  obtain n1 where n1: "inserted (events st1) = inserted (events st) @ n1"
    "n1 = [] \<or> n1 = [Version info] \<and> Version info \<noteq> [] \<and> applied (Version info) = None"
    by auto
  show ?case
  proof (cases r1)
    case (Some code)
    with Cons.prems(2) r1 have "st' = st1" by simp
    with n1 show ?thesis unfolding fv by (intro exI [of _ n1]) (auto simp: domIff)
  next
    case None
    with Cons.prems(2) r1 have "runLoop cfg ex md5hex fs applied rest st1 = (r, st')" by simp
    from Cons.IH [OF dr this] obtain n2 where n2:
      "inserted (events st') = inserted (events st1) @ n2" "distinct n2"
      "set n2 \<subseteq> set (fileVersions md5hex fs rest) - dom applied" by blast
    from n1(2) show ?thesis
    proof
      assume "n1 = []"
      with n1(1) n2 show ?thesis unfolding fv by (intro exI [of _ n2]) auto
    next
      assume v: "n1 = [Version info] \<and> Version info \<noteq> [] \<and> applied (Version info) = None"
      with Cons.prems(1) have "Version info \<notin> set (fileVersions md5hex fs rest)"
        unfolding fv by simp
      with v n1(1) n2 show ?thesis unfolding fv
        by (intro exI [of _ "Version info # n2"]) (auto simp: domIff)
    qed
  qed
qed

lemma runLoop_ledger:
  fixes ex :: "('b, 'e) executor" and st :: "('b, 'e) run_state"
  assumes "\<not> Force cfg"
    and "distinct (fileVersions md5hex fs files)"
    and "distinct (map rowVersion rows)"
    and "runLoop cfg ex md5hex fs (foldl addApplied Map.empty rows) files st = (r, st')"
  shows "\<exists>new. inserted (events st') = inserted (events st) @ new \<and>
     distinct (map rowVersion rows @ new)"
proof -
  from runLoop_inserted [OF assms(1,2,4)] obtain new where
    n: "inserted (events st') = inserted (events st) @ new" "distinct new"
    "set new \<subseteq> set (fileVersions md5hex fs files) - dom (foldl addApplied Map.empty rows)"
    by auto
  have "[] \<notin> set (fileVersions md5hex fs files)" by (simp add: fileVersions_def)
  with n(3) have "set new \<inter> set (map rowVersion rows) = {}"
    unfolding dom_foldl_addApplied by auto
  with n(1,2) assms(3) show ?thesis by auto
qed

text \<open>
  The calls are only ever appended to: the state after the first files of the loop has
  made a prefix of the calls of the state after all of them.
\<close>

lemma runFile_events:
  fixes ex :: "('b, 'e) executor" and st :: "('b, 'e) run_state"
  assumes "runFile cfg ex md5hex fs applied f st = (r, st')"
  shows "\<exists>evs. events st' = events st @ evs"
proof -
  obtain info and perr :: "'e error option"
    where p: "parseMigrationInfo md5hex fs f = (info, perr)"
    by (cases "parseMigrationInfo md5hex fs f :: MigrationInfo \<times> 'e error option")
  show ?thesis
  proof (cases "\<not> Force cfg \<and> Version info \<noteq> [] \<and> applied (Version info) \<noteq> None")
    case True
    then obtain c where "applied (Version info) = Some c" by auto
    from runFile_known [OF p _ _ this assms] True show ?thesis by simp
  next
    case False
    then have c: "Force cfg \<or> Version info = [] \<or> applied (Version info) = None" by auto
    obtain x b' evs where
      a: "applyOutcome (Version info \<noteq> []) ex fs f info (backend st) = (x, b', evs)"
      by (cases "applyOutcome (Version info \<noteq> []) ex fs f info (backend st)")
    from runFile_apply [OF p a c assms] show ?thesis by blast
  qed
qed

lemma runLoop_events:
  fixes ex :: "('b, 'e) executor" and st :: "('b, 'e) run_state"
  shows "runLoop cfg ex md5hex fs applied files st = (r, st') \<Longrightarrow>
     \<exists>evs. events st' = events st @ evs"
proof (induction files arbitrary: st)
  case Nil
  then show ?case by simp
next
  case (Cons f rest)
  obtain r1 st1 where r1: "runFile cfg ex md5hex fs applied f st = (r1, st1)"
    by (cases "runFile cfg ex md5hex fs applied f st")
  from runFile_events [OF r1] obtain e1 where e1: "events st1 = events st @ e1" by blast
  show ?case
  proof (cases r1)
    case None
    with Cons.prems r1 have "runLoop cfg ex md5hex fs applied rest st1 = (r, st')" by simp
    from Cons.IH [OF this] e1 show ?thesis by auto
  next
    case (Some code)
    with Cons.prems r1 e1 show ?thesis by auto
  qed
qed

lemma runLoop_prefix:
  fixes ex :: "('b, 'e) executor" and st :: "('b, 'e) run_state"
  assumes "runLoop cfg ex md5hex fs applied (first @ rest) st = (r, st')"
  shows "\<exists>later. events st' =
     events (snd (runLoop cfg ex md5hex fs applied first st)) @ later"
  using assms
proof (induction first arbitrary: st)
  case Nil
  from runLoop_events [of cfg ex md5hex fs applied rest st r st'] Nil show ?case by simp
next
  case (Cons f first)
  obtain r1 st1 where r1: "runFile cfg ex md5hex fs applied f st = (r1, st1)"
    by (cases "runFile cfg ex md5hex fs applied f st")
  show ?case
  proof (cases r1)
    case None
    with Cons.prems r1 have "runLoop cfg ex md5hex fs applied (first @ rest) st1 = (r, st')"
      by simp
    from Cons.IH [OF this] r1 None show ?thesis by simp
  next
    case (Some code)
    with Cons.prems r1 show ?thesis by auto
  qed
qed

text \<open>A manifest resolves to one list of files at most.\<close>

lemma resolves_functional:
  assumes "resolves fs path xs" and "resolves fs path ys"
  shows "xs = ys"
proof -
  let ?c = "\<lparr>sqlfiles = [], printed = []\<rparr> :: unit collect_state"
  from resolves_process(1) [OF assms(1), of False, where 'e = unit]
  obtain n1 s1 where 1: "processWithWriter n1 fs False path ?c = Some (None, s1)"
    "sqlfiles s1 = sqlfiles ?c @ xs" by blast
  from resolves_process(1) [OF assms(2), of False, where 'e = unit]
  obtain n2 s2 where 2: "processWithWriter n2 fs False path ?c = Some (None, s2)"
    "sqlfiles s2 = sqlfiles ?c @ ys" by blast
  from fuel_mono(1) [OF _ 1(1), of "max n1 n2"] fuel_mono(1) [OF _ 2(1), of "max n1 n2"]
  have "s1 = s2" by simp
  with 1(2) 2(2) show ?thesis by simp
qed

subsection \<open>The run as a whole\<close>

lemma migrate_returns:
  fixes ex :: "('b, 'e) executor" and st :: "('b, 'e) run_state"
  shows "migrate depth cfg ex md5hex fs applied st = None \<longleftrightarrow>
     processWithWriter depth fs (Debug cfg) (Path cfg)
       \<lparr>sqlfiles = [], printed = stdout st\<rparr> = None"
  by (auto simp: migrate_def split: option.splits prod.splits)

lemma migrate_events:
  fixes ex :: "('b, 'e) executor" and st :: "('b, 'e) run_state"
  assumes "migrate depth cfg ex md5hex fs applied st = Some (code, st')"
  shows "events st' = events st \<or>
     (\<exists>files r st0 st''. resolves fs (Path cfg) files \<and> events st0 = events st \<and>
        runLoop cfg ex md5hex fs applied files st0 = (r, st'') \<and> events st' = events st'')"
proof -
  let ?c = "\<lparr>sqlfiles = [], printed = stdout st\<rparr>"
  from assms obtain e c where
    pr: "processWithWriter depth fs (Debug cfg) (Path cfg) ?c = Some (e, c)"
    by (auto simp: migrate_def split: option.splits)
  show ?thesis
  proof (cases e)
    case (Some err)
    with assms pr show ?thesis by (auto simp: migrate_def)
  next
    case None
    from process_resolves(1) [OF pr [unfolded None]]
    have f: "resolves fs (Path cfg) (sqlfiles c)" by auto
    let ?st0 = "st\<lparr>stdout := printed c\<rparr>"
    obtain r2 st2 where l: "runLoop cfg ex md5hex fs applied (sqlfiles c) ?st0 = (r2, st2)"
      by (cases "runLoop cfg ex md5hex fs applied (sqlfiles c) ?st0")
    from assms pr None l have "events st' = events st2"
      by (cases r2) (auto simp: migrate_def)
    moreover have "events ?st0 = events st" by simp
    ultimately show ?thesis using f l by blast
  qed
qed

lemma tree_files:
  "processWithWriter (Suc 0) example_tree debug (runes ''index.lst'')
      \<lparr>sqlfiles = [], printed = out\<rparr> =
    Some (None, \<lparr>sqlfiles = [runes ''m.sql''],
      printed = out @ [ProcessingFile (runes ''index.lst'') (runes ''.'')] @
        (if debug then [AddingSQLFile (runes ''m.sql'')] else [])\<rparr>)"
  by (simp add: processWithWriter.simps processLines.simps example_tree_def path_eval)

lemma twice_files:
  "processWithWriter (Suc 0) example_twice False (runes ''index.lst'')
      \<lparr>sqlfiles = [], printed = out\<rparr> =
    Some (None, \<lparr>sqlfiles = [runes ''m.sql'', runes ''m.sql''],
      printed = out @ [ProcessingFile (runes ''index.lst'') (runes ''.'')]\<rparr>)"
  by (simp add: processWithWriter.simps processLines.simps example_twice_def path_eval)

lemma tree_resolves: "resolves example_tree (runes ''index.lst'') [runes ''m.sql'']"
proof -
  from process_resolves(1) [OF tree_files [of False "[] :: unit message list"]]
  show ?thesis by simp
qed

lemmas driver_eval = runFile_def executeSQLWithWriter_def recordMigration_def Let_def

lemma tree_run_unqueried:
  "\<exists>st. run (Suc 0) \<lparr>Path = runes ''index.lst'', Force = False, Debug = False\<rparr>
        (mockExecutor [] (Inl ())) (\<lambda>c. runes ''X'') example_tree b [] = Some (0, st) \<and>
      inserted (events st) = [runes ''1'']"
  apply (simp add: run_def loadApplied_def getAppliedMigrations_def migrate_def tree_files)
  apply (simp add: example_tree_def driver_eval run_eval parse_eval split_eval)
  done

lemma tree_run_forced:
  "\<exists>st. run (Suc 0) \<lparr>Path = runes ''index.lst'', Force = True, Debug = False\<rparr>
        (mockExecutor [] (Inr [example_row])) (\<lambda>c. runes ''X'') example_tree [] [] =
        Some (0, st) \<and>
      map rowVersion [example_row] @ inserted (events st) = [runes ''1'', runes ''1'']"
  apply (simp add: run_def loadApplied_def getAppliedMigrations_def migrate_def tree_files)
  apply (simp add: example_tree_def driver_eval run_eval parse_eval split_eval)
  done

lemma twice_run:
  "\<exists>st. run (Suc 0) \<lparr>Path = runes ''index.lst'', Force = False, Debug = False\<rparr>
        (mockExecutor [] (Inr [])) (\<lambda>c. runes ''X'') example_twice [] [] = Some (0, st) \<and>
      inserted (events st) = [runes ''1'', runes ''1'']"
  apply (simp add: run_def loadApplied_def getAppliedMigrations_def migrate_def twice_files)
  apply (simp add: example_twice_def driver_eval run_eval parse_eval split_eval)
  done

lemma tree_run_doubled:
  "\<exists>st. run (Suc 0) \<lparr>Path = runes ''index.lst'', Force = False, Debug = False\<rparr>
        (mockExecutor [] (Inr [example_row, example_row])) (\<lambda>c. runes ''X'') example_tree [] [] =
        Some (0, st) \<and>
      map rowVersion [example_row, example_row] @ inserted (events st) =
        [runes ''1'', runes ''1'']"
  apply (simp add: run_def loadApplied_def getAppliedMigrations_def migrate_def tree_files)
  apply (simp add: example_tree_def driver_eval run_eval parse_eval split_eval)
  done

text \<open>
  C5, as the code has it. \<^verbatim>\<open>recordMigration\<close> inserts a row without looking for an
  existing one, and the applied-state mapping is not updated during the run. The ledger
  is the rows that the query at the start of the run returned, followed by the rows
  that the run has inserted so far. When that query succeeds and its rows hold distinct
  versions, the force flag is off and no two files of the manifest carry the same
  version, the ledger holds at most one row per version in every state of the run: in
  the state the run returns and, since a call is only ever added after the calls made
  before it, in every state the run went through, which has made a first part \<open>evs\<close>
  of the calls of that state. (A run that does not return is one whose manifest never
  finishes resolving; it has made no call.)
\<close>

theorem ledger_rows_unique:
  fixes ex :: "('b, 'e) executor" and out :: "'e message list"
  assumes "\<not> Force cfg"
    and "Query ex b (runes ''SELECT version, checksum FROM schema_versions'') = (Inr rows, b')"
    and "distinct (map rowVersion rows)"
    and "\<forall>files. resolves fs (Path cfg) files \<longrightarrow> distinct (fileVersions md5hex fs files)"
    and "run depth cfg ex md5hex fs b out = Some (code, st)"
    and "events st = evs @ later"
  shows "distinct (map rowVersion rows @ inserted evs)"
proof -
  let ?applied = "foldl addApplied Map.empty rows"
  let ?st0 = "(fresh b')\<lparr>stdout := out\<rparr> :: ('b, 'e) run_state"
  have "loadApplied cfg ex ((fresh b)\<lparr>stdout := out\<rparr>) = (?applied, ?st0)"
    using assms(2) by (simp add: loadApplied_def getAppliedMigrations_def fresh_def)
  with assms(5) have m: "migrate depth cfg ex md5hex fs ?applied ?st0 = Some (code, st)"
    by (simp add: run_def)
  have e0: "events ?st0 = []" by (simp add: fresh_def)
  have "\<exists>new. inserted (events st) = new \<and> distinct (map rowVersion rows @ new)"
    using migrate_events [OF m]
  proof
    assume "events st = events ?st0"
    with e0 assms(3) show ?thesis by simp
  next
    assume "\<exists>files r st0 st''. resolves fs (Path cfg) files \<and> events st0 = events ?st0 \<and>
        runLoop cfg ex md5hex fs ?applied files st0 = (r, st'') \<and> events st = events st''"
    then obtain files r st0 st'' where f: "resolves fs (Path cfg) files"
      and s: "events st0 = events ?st0"
      and l: "runLoop cfg ex md5hex fs ?applied files st0 = (r, st'')"
      and e: "events st = events st''" by blast
    from assms(4) f have "distinct (fileVersions md5hex fs files)" by blast
    from runLoop_ledger [OF assms(1) this assms(3) l] s e0 e show ?thesis by simp
  qed
  with assms(6) show ?thesis by (auto simp: inserted_append)
qed

text \<open>
  Witness for C5: the ledger holds a row for version 0, the query returns it, and the
  manifest lists the file of version 1. Without the force flag the run applies the
  file, and in every state it goes through the ledger holds version 0 once and version
  1 at most once.
\<close>

theorem ledger_rows_unique_witness:
  "Query (mockExecutor [] (Inr [[runes ''version'' \<mapsto> VString (runes ''0'')]])) []
      (runes ''SELECT version, checksum FROM schema_versions'') =
     (Inr [[runes ''version'' \<mapsto> VString (runes ''0'')]], []) \<and>
   resolves example_tree (runes ''index.lst'') [runes ''m.sql''] \<and>
   fileVersions (\<lambda>c. runes ''X'') example_tree [runes ''m.sql''] = [runes ''1''] \<and>
   (\<exists>st. run (Suc 0) \<lparr>Path = runes ''index.lst'', Force = False, Debug = False\<rparr>
        (mockExecutor [] (Inr [[runes ''version'' \<mapsto> VString (runes ''0'')]]))
        (\<lambda>c. runes ''X'') example_tree [] [] = Some (0, st) \<and>
      map rowVersion [[runes ''version'' \<mapsto> VString (runes ''0'')]] @ inserted (events st) =
        [runes ''0'', runes ''1''] \<and>
      (\<forall>evs later. events st = evs @ later \<longrightarrow>
         distinct (map rowVersion [[runes ''version'' \<mapsto> VString (runes ''0'')]] @
           inserted evs)))"
proof -
  let ?cfg = "\<lparr>Path = runes ''index.lst'', Force = False, Debug = False\<rparr>"
  let ?rows = "[[runes ''version'' \<mapsto> VString (runes ''0'')]] :: row list"
  let ?ex = "mockExecutor [] (Inr ?rows) :: (gostring list, unit) executor"
  have 1: "\<not> Force ?cfg" by simp
  have 2: "Query ?ex [] (runes ''SELECT version, checksum FROM schema_versions'') =
     (Inr ?rows, [])" by (simp add: mockExecutor_def)
  have 3: "distinct (map rowVersion ?rows)" by simp
  have v: "fileVersions (\<lambda>c. runes ''X'') example_tree [runes ''m.sql''] = [runes ''1'']"
    by (simp add: fileVersions_def example_tree_def run_eval parse_eval)
  have 4: "\<forall>files. resolves example_tree (Path ?cfg) files \<longrightarrow>
      distinct (fileVersions (\<lambda>c. runes ''X'') example_tree files)"
  proof (intro allI impI)
    fix files assume "resolves example_tree (Path ?cfg) files"
    then have "resolves example_tree (runes ''index.lst'') files" by simp
    from resolves_functional [OF this tree_resolves] v
    show "distinct (fileVersions (\<lambda>c. runes ''X'') example_tree files)" by simp
  qed
  have "\<exists>st. run (Suc 0) ?cfg ?ex (\<lambda>c. runes ''X'') example_tree [] [] = Some (0, st) \<and>
      map rowVersion ?rows @ inserted (events st) = [runes ''0'', runes ''1'']"
    apply (simp add: run_def loadApplied_def getAppliedMigrations_def migrate_def tree_files)
    apply (simp add: example_tree_def driver_eval run_eval parse_eval split_eval)
    done
  then obtain st where
    5: "run (Suc 0) ?cfg ?ex (\<lambda>c. runes ''X'') example_tree [] [] = Some (0, st)"
    and l: "map rowVersion ?rows @ inserted (events st) = [runes ''0'', runes ''1'']"
    by blast
  have "distinct (map rowVersion ?rows @ inserted evs)" if "events st = evs @ later"
    for evs later
    using ledger_rows_unique [OF 1 2 3 4 5 that] .
  with 2 tree_resolves v 5 l show ?thesis by blast
qed

text \<open>
  Counterexamples to C5 as stated, one for each condition of the theorem; in each the
  ledger ends with two rows for version 1. With the force flag, the file that the ledger records is executed
  and recorded again. Without the flag, a manifest that lists the file twice has it
  executed and recorded twice, since the mapping is not updated; and when the query
  fails, in the first run and again in the next one, which starts from the database
  that the first has left, each of the two runs records the version. Last, a ledger
  that holds two rows for the version when the run starts holds them when it ends.
\<close>

theorem ledger_row_duplicated:
  "(\<exists>st. run (Suc 0) \<lparr>Path = runes ''index.lst'', Force = True, Debug = False\<rparr>
        (mockExecutor [] (Inr [example_row])) (\<lambda>c. runes ''X'') example_tree [] [] =
        Some (0, st) \<and>
      map rowVersion [example_row] @ inserted (events st) = [runes ''1'', runes ''1'']) \<and>
   (\<exists>st. run (Suc 0) \<lparr>Path = runes ''index.lst'', Force = False, Debug = False\<rparr>
        (mockExecutor [] (Inr [])) (\<lambda>c. runes ''X'') example_twice [] [] = Some (0, st) \<and>
      inserted (events st) = [runes ''1'', runes ''1'']) \<and>
   (\<exists>st1 st2.
      run (Suc 0) \<lparr>Path = runes ''index.lst'', Force = False, Debug = False\<rparr>
        (mockExecutor [] (Inl ())) (\<lambda>c. runes ''X'') example_tree [] [] = Some (0, st1) \<and>
      run (Suc 0) \<lparr>Path = runes ''index.lst'', Force = False, Debug = False\<rparr>
        (mockExecutor [] (Inl ())) (\<lambda>c. runes ''X'') example_tree (backend st1) [] =
        Some (0, st2) \<and>
      inserted (events st1) @ inserted (events st2) = [runes ''1'', runes ''1'']) \<and>
   (\<exists>st. run (Suc 0) \<lparr>Path = runes ''index.lst'', Force = False, Debug = False\<rparr>
        (mockExecutor [] (Inr [example_row, example_row])) (\<lambda>c. runes ''X'') example_tree [] [] =
        Some (0, st) \<and>
      map rowVersion [example_row, example_row] @ inserted (events st) =
        [runes ''1'', runes ''1''])"
proof -
  from tree_run_unqueried [of "[]"] obtain st1 where
    1: "run (Suc 0) \<lparr>Path = runes ''index.lst'', Force = False, Debug = False\<rparr>
        (mockExecutor [] (Inl ())) (\<lambda>c. runes ''X'') example_tree [] [] = Some (0, st1)"
      "inserted (events st1) = [runes ''1'']" by blast
  from tree_run_unqueried [of "backend st1"] obtain st2 where
    2: "run (Suc 0) \<lparr>Path = runes ''index.lst'', Force = False, Debug = False\<rparr>
        (mockExecutor [] (Inl ())) (\<lambda>c. runes ''X'') example_tree (backend st1) [] =
        Some (0, st2)"
      "inserted (events st2) = [runes ''1'']" by blast
  from 1 2 have "\<exists>st1 st2.
      run (Suc 0) \<lparr>Path = runes ''index.lst'', Force = False, Debug = False\<rparr>
        (mockExecutor [] (Inl ())) (\<lambda>c. runes ''X'') example_tree [] [] = Some (0, st1) \<and>
      run (Suc 0) \<lparr>Path = runes ''index.lst'', Force = False, Debug = False\<rparr>
        (mockExecutor [] (Inl ())) (\<lambda>c. runes ''X'') example_tree (backend st1) [] =
        Some (0, st2) \<and>
      inserted (events st1) @ inserted (events st2) = [runes ''1'', runes ''1'']"
    by (intro exI [of _ st1] exI [of _ st2]) simp
  with tree_run_forced twice_run tree_run_doubled show ?thesis by blast
qed

subsection \<open>A failed ledger query\<close>

lemma extends_refl [simp]: "extends xs xs"
  by (simp add: extends_def)

lemma extends_trans: "extends xs ys \<Longrightarrow> extends ys zs \<Longrightarrow> extends xs zs"
  by (auto simp: extends_def)

lemma extends_snoc:
  assumes "extends xs ys" and "\<forall>e. m \<noteq> NoteCouldNotQuery e"
  shows "extends xs (ys @ [m])"
proof -
  from assms(1) obtain more where m: "ys = xs @ more" "\<forall>e. NoteCouldNotQuery e \<notin> set more"
    unfolding extends_def by blast
  from m(2) assms(2) have "\<forall>e. NoteCouldNotQuery e \<notin> set (more @ [m])" by auto
  with m(1) show ?thesis unfolding extends_def by (intro exI [of _ "more @ [m]"]) simp
qed

lemma process_extends:
  "processWithWriter n fs debug path (st :: 'e collect_state) = Some (e, st') \<Longrightarrow>
     extends (printed st) (printed st')"
  "processLines n fs debug dir ls (st :: 'e collect_state) = Some (e', st'') \<Longrightarrow>
     extends (printed st) (printed st'')"
proof (induction n fs debug path st and n fs debug dir ls st arbitrary: e st' and e' st''
    rule: processWithWriter_processLines.induct)
  case (1 fs debug path st)
  then show ?case by (simp add: processWithWriter.simps)
next
  case (2 n fs debug path st)
  show ?case
  proof (cases "fs path")
    case None
    with "2.prems" show ?thesis
      by (auto simp: processWithWriter_Suc intro!: extends_snoc)
  next
    case (Some content)
    let ?st = "st\<lparr>printed := printed st @ [ProcessingFile path (pathDir path)]\<rparr>"
    have x: "extends (printed st) (printed ?st)" by (simp add: extends_snoc)
    obtain a where a: "processLines n fs debug (pathDir path) (scanLines content) ?st = Some a"
      using "2.prems" Some by (auto simp: processWithWriter_Suc split: option.splits)
    obtain e1 s1 where a1: "a = (e1, s1)" by (cases a)
    from "2.IH" [OF Some a [unfolded a1]] have "extends (printed ?st) (printed s1)" .
    with x have "extends (printed st) (printed s1)" by (rule extends_trans)
    moreover from "2.prems" Some a a1 have "st' = s1"
      by (auto simp: processWithWriter_Suc split: option.splits if_splits)
    ultimately show ?thesis by simp
  qed
next
  case (3 n fs debug dir st)
  then show ?case by (simp add: processLines.simps)
next
  case (4 n fs debug dir l ls st)
  let ?line = "TrimSpace l"
  note p = "4.prems" [unfolded processLines_Cons]
  consider (skip) "?line = [] \<or> HasPrefix ?line (runes ''#'')"
    | (lst) "\<not> (?line = [] \<or> HasPrefix ?line (runes ''#''))" "HasSuffix ?line (runes ''.lst'')"
    | (sql) "\<not> (?line = [] \<or> HasPrefix ?line (runes ''#''))" "\<not> HasSuffix ?line (runes ''.lst'')"
        "HasSuffix ?line (runes ''.sql'')"
    | (other) "\<not> (?line = [] \<or> HasPrefix ?line (runes ''#''))" "\<not> HasSuffix ?line (runes ''.lst'')"
        "\<not> HasSuffix ?line (runes ''.sql'')"
    by blast
  then show ?case
  proof cases
    case skip
    from p skip have "processLines n fs debug dir ls st = Some (e', st'')" by simp
    from "4.IH"(1) [OF refl skip this] show ?thesis .
  next
    case lst
    from p lst obtain a where a: "processWithWriter n fs debug (pathJoin dir ?line) st = Some a"
      by (auto split: option.splits)
    obtain e1 s1 where a1: "a = (e1, s1)" by (cases a)
    from "4.IH"(2) [OF refl lst a [unfolded a1]] have x: "extends (printed st) (printed s1)" .
    show ?thesis
    proof (cases e1)
      case None
      from p lst a a1 None have "processLines n fs debug dir ls s1 = Some (e', st'')" by simp
      from "4.IH"(3) [OF refl lst a a1 [symmetric] None this]
      have "extends (printed s1) (printed st'')" .
      with x show ?thesis by (rule extends_trans)
    next
      case (Some err)
      with p lst a a1 have "st'' = s1" by simp
      with x show ?thesis by simp
    qed
  next
    case sql
    let ?st = "st\<lparr>sqlfiles := sqlfiles st @ [pathJoin dir ?line],
              printed := (if debug then printed st @ [AddingSQLFile ?line] else printed st)\<rparr>"
    have x: "extends (printed st) (printed ?st)" by (simp add: extends_snoc)
    from p sql have "processLines n fs debug dir ls ?st = Some (e', st'')" by simp
    from "4.IH"(4) [OF refl sql this] have "extends (printed ?st) (printed st'')" .
    with x show ?thesis by (rule extends_trans)
  next
    case other
    let ?st = "st\<lparr>printed := printed st @ [UnknownFileType ?line]\<rparr>"
    have x: "extends (printed st) (printed ?st)" by (simp add: extends_snoc)
    from p other have "processLines n fs debug dir ls ?st = Some (e', st'')" by simp
    from "4.IH"(5) [OF refl other this] have "extends (printed ?st) (printed st'')" .
    with x show ?thesis by (rule extends_trans)
  qed
qed

lemma execStatements_extends:
  "execStatements ex debug path n i stmts st = (r, st') \<Longrightarrow>
     extends (stdout st) (stdout st') \<and> stderr st' = stderr st"
proof (induction stmts arbitrary: i st)
  case Nil
  then show ?case by simp
next
  case (Cons s ss)
  let ?st1 = "if debug then st\<lparr>stdout := stdout st @ [ExecutingStatement (i + 1) n]\<rparr> else st"
  have x: "extends (stdout st) (stdout ?st1)" "stderr ?st1 = stderr st"
    by (simp_all add: extends_snoc)
  show ?case
  proof (cases "TrimSpace s = []")
    case True
    with Cons show ?thesis by simp
  next
    case False
    obtain y b1 where y: "Execute ex (backend ?st1) (TrimSpace s) = (y, b1)"
      by (cases "Execute ex (backend ?st1) (TrimSpace s)")
    show ?thesis
    proof (cases y)
      case (Some err)
      with y False Cons.prems x show ?thesis by (auto simp: Let_def)
    next
      case None
      let ?st2 = "?st1\<lparr>backend := b1,
        events := events ?st1 @ [Statement path (i + 1) (TrimSpace s) None]\<rparr>"
      from y None False Cons.prems
      have "execStatements ex debug path n (i + 1) ss ?st2 = (r, st')"
        by (simp add: Let_def)
      from Cons.IH [OF this] have "extends (stdout ?st2) (stdout st')" "stderr st' = stderr ?st2"
        by simp_all
      moreover have "stdout ?st2 = stdout ?st1" "stderr ?st2 = stderr ?st1" by simp_all
      ultimately show ?thesis using x extends_trans by metis
    qed
  qed
qed

lemma executeSQL_extends:
  assumes "executeSQLWithWriter ex fs debug f st = (r, st')"
  shows "extends (stdout st) (stdout st') \<and> stderr st' = stderr st"
proof -
  let ?st1 = "st\<lparr>stdout := stdout st @ [ExecutingSQLFile f]\<rparr>"
  have x: "extends (stdout st) (stdout ?st1)" by (simp add: extends_snoc)
  show ?thesis
  proof (cases "fs f")
    case None
    with assms x show ?thesis by (auto simp: executeSQLWithWriter_def Let_def)
  next
    case (Some sql)
    obtain r2 st2 where e: "execStatements ex debug f (length (splitSQLStatements sql)) 0
        (splitSQLStatements sql) ?st1 = (r2, st2)"
      by (cases "execStatements ex debug f (length (splitSQLStatements sql)) 0
        (splitSQLStatements sql) ?st1")
    from execStatements_extends [OF e] x
    have y: "extends (stdout st) (stdout st2)" "stderr st2 = stderr st"
      by (auto intro: extends_trans)
    from assms Some e y show ?thesis
      by (cases r2) (auto simp: executeSQLWithWriter_def Let_def intro: extends_snoc)
  qed
qed

lemma runFile_extends:
  fixes ex :: "('b, 'e) executor" and st :: "('b, 'e) run_state"
  assumes "runFile cfg ex md5hex fs applied f st = (r, st')"
  shows "extends (stdout st) (stdout st') \<and> extends (stderr st) (stderr st')"
proof -
  obtain info and perr :: "'e error option"
    where p: "parseMigrationInfo md5hex fs f = (info, perr)"
    by (cases "parseMigrationInfo md5hex fs f :: MigrationInfo \<times> 'e error option")
  define st1 where "st1 = (case perr of
       Some err \<Rightarrow> st\<lparr>stdout := stdout st @ [CouldNotParse f err]\<rparr> | None \<Rightarrow> st)"
  have s1: "extends (stdout st) (stdout st1)" "stderr st1 = stderr st"
    by (auto simp: st1_def extends_snoc split: option.splits)
  obtain xr st2 where e: "executeSQLWithWriter ex fs (Debug cfg) f st1 = (xr, st2)"
    by (cases "executeSQLWithWriter ex fs (Debug cfg) f st1")
  from executeSQL_extends [OF e] s1
  have s2: "extends (stdout st) (stdout st2)" "stderr st2 = stderr st"
    by (auto intro: extends_trans)
  obtain rr st3 where rc: "recordMigration ex info st2 = (rr, st3)"
    by (cases "recordMigration ex info st2")
  then have s3: "stdout st3 = stdout st2" "stderr st3 = stderr st2"
    by (auto simp: recordMigration_def split: prod.splits)
  from assms show ?thesis
    unfolding runFile_def p prod.case Let_def st1_def [symmetric] e rc
    using s1 s2 s3
    by (auto split: option.splits if_splits intro!: extends_snoc)
qed

lemma runLoop_extends:
  fixes ex :: "('b, 'e) executor" and st :: "('b, 'e) run_state"
  shows "runLoop cfg ex md5hex fs applied files st = (r, st') \<Longrightarrow>
     extends (stdout st) (stdout st') \<and> extends (stderr st) (stderr st')"
proof (induction files arbitrary: st)
  case Nil
  then show ?case by simp
next
  case (Cons f rest)
  obtain r1 st1 where r1: "runFile cfg ex md5hex fs applied f st = (r1, st1)"
    by (cases "runFile cfg ex md5hex fs applied f st")
  note x = runFile_extends [OF r1]
  show ?case
  proof (cases r1)
    case None
    with Cons.prems r1 have "runLoop cfg ex md5hex fs applied rest st1 = (r, st')" by simp
    from Cons.IH [OF this] x show ?thesis by (auto intro: extends_trans)
  next
    case (Some code)
    with Cons.prems r1 x show ?thesis by simp
  qed
qed

lemma migrate_extends:
  fixes ex :: "('b, 'e) executor" and st :: "('b, 'e) run_state"
  assumes "migrate depth cfg ex md5hex fs applied st = Some (code, st')"
  shows "extends (stdout st) (stdout st') \<and> extends (stderr st) (stderr st')"
proof -
  let ?c = "\<lparr>sqlfiles = [], printed = stdout st\<rparr>"
  from assms obtain e c where
    pr: "processWithWriter depth fs (Debug cfg) (Path cfg) ?c = Some (e, c)"
    by (auto simp: migrate_def split: option.splits)
  from process_extends(1) [OF pr] have x: "extends (stdout st) (printed c)" by simp
  show ?thesis
  proof (cases e)
    case (Some err)
    with assms pr have "st' = st\<lparr>stdout := printed c, stderr := stderr st @ [ErrorProcessingIndex err]\<rparr>"
      by (simp add: migrate_def)
    with x show ?thesis by (simp add: extends_snoc)
  next
    case None
    obtain r2 st2 where l: "runLoop cfg ex md5hex fs applied (sqlfiles c) (st\<lparr>stdout := printed c\<rparr>) = (r2, st2)"
      by (cases "runLoop cfg ex md5hex fs applied (sqlfiles c) (st\<lparr>stdout := printed c\<rparr>)")
    from runLoop_extends [OF l] x
    have y: "extends (stdout st) (stdout st2)" "extends (stderr st) (stderr st2)"
      by (auto intro: extends_trans)
    from assms pr None l y show ?thesis
      by (cases r2) (auto simp: migrate_def intro: extends_snoc)
  qed
qed

text \<open>
  C6, as the code has it. When the query for the applied migrations fails, the run does
  not end there. The step that loads the ledger returns the empty applied-state mapping,
  and it prints the failure, after what was printed before, only when the debug flag is
  set. The run then is \<open>migrate\<close> with the empty mapping, under which no file is skipped
  or rejected; it fails to return only when the resolver of the manifest does, and for a
  manifest that resolves it returns for every sufficient bound on the nesting depth.
  Nothing that it prints afterwards on either writer mentions the failure, so without
  the debug flag the failure is not reported at all.
\<close>

theorem query_failure_fallback:
  fixes ex :: "('b, 'e) executor" and out :: "'e message list"
  assumes "Query ex b (runes ''SELECT version, checksum FROM schema_versions'') = (Inl err, b')"
  shows "loadApplied cfg ex ((fresh b)\<lparr>stdout := out\<rparr>) =
       (Map.empty,
        (fresh b')\<lparr>stdout := out @ (if Debug cfg then [NoteCouldNotQuery err] else [])\<rparr>) \<and>
     run depth cfg ex md5hex fs b out =
       migrate depth cfg ex md5hex fs Map.empty
         ((fresh b')\<lparr>stdout := out @ (if Debug cfg then [NoteCouldNotQuery err] else [])\<rparr>) \<and>
     (\<forall>info. decide (Force cfg) Map.empty info = AlwaysApply \<or>
             decide (Force cfg) Map.empty info = Apply) \<and>
     (run depth cfg ex md5hex fs b out = None \<longleftrightarrow>
        processWithWriter depth fs (Debug cfg) (Path cfg)
          \<lparr>sqlfiles = [],
             printed = out @ (if Debug cfg then [NoteCouldNotQuery err] else [])\<rparr> = None) \<and>
     (\<forall>files. resolves fs (Path cfg) files \<longrightarrow>
        (\<exists>n. \<forall>m\<ge>n. \<exists>code st. run m cfg ex md5hex fs b out = Some (code, st))) \<and>
     (\<forall>code st. run depth cfg ex md5hex fs b out = Some (code, st) \<longrightarrow>
        extends (out @ (if Debug cfg then [NoteCouldNotQuery err] else [])) (stdout st) \<and>
        extends [] (stderr st))"
proof -
  let ?note = "if Debug cfg then [NoteCouldNotQuery err] else []"
  let ?st = "(fresh b')\<lparr>stdout := out @ ?note\<rparr> :: ('b, 'e) run_state"
  have l: "loadApplied cfg ex ((fresh b)\<lparr>stdout := out\<rparr>) = (Map.empty, ?st)"
    using assms by (simp add: loadApplied_def getAppliedMigrations_def fresh_def)
  have r: "run m cfg ex md5hex fs b out = migrate m cfg ex md5hex fs Map.empty ?st" for m
    by (simp add: run_def l)
  have d: "decide (Force cfg) Map.empty info = AlwaysApply \<or>
             decide (Force cfg) Map.empty info = Apply" for info
    by (simp add: decide_def)
  have s: "stdout ?st = out @ ?note" by (simp add: fresh_def)
  have n: "run m cfg ex md5hex fs b out = None \<longleftrightarrow>
        processWithWriter m fs (Debug cfg) (Path cfg)
          \<lparr>sqlfiles = [], printed = out @ ?note\<rparr> = None" for m
    unfolding r migrate_returns s ..
  have t: "\<exists>n. \<forall>m\<ge>n. \<exists>code st. run m cfg ex md5hex fs b out = Some (code, st)"
    if "resolves fs (Path cfg) files" for files
  proof -
    from resolves_process(1) [OF that, of "Debug cfg"]
    obtain k where k: "\<And>c :: 'e collect_state. \<exists>c'.
        processWithWriter k fs (Debug cfg) (Path cfg) c = Some (None, c')" by blast
    have "\<exists>code st. run m cfg ex md5hex fs b out = Some (code, st)" if "k \<le> m" for m
    proof -
      from k [of "\<lparr>sqlfiles = [], printed = out @ ?note\<rparr>"] obtain c' where
        "processWithWriter k fs (Debug cfg) (Path cfg)
           \<lparr>sqlfiles = [], printed = out @ ?note\<rparr> = Some (None, c')" by blast
      from fuel_mono(1) [OF that this]
      have "processWithWriter m fs (Debug cfg) (Path cfg)
           \<lparr>sqlfiles = [], printed = out @ ?note\<rparr> \<noteq> None" by simp
      with n [of m] have "run m cfg ex md5hex fs b out \<noteq> None" by simp
      then show ?thesis by auto
    qed
    then show ?thesis by blast
  qed
  have e: "extends (out @ ?note) (stdout st) \<and> extends [] (stderr st)"
    if "run depth cfg ex md5hex fs b out = Some (code, st)" for code st
    using migrate_extends [OF that [unfolded r]] by (simp add: fresh_def)
  from l r [of depth] d n [of depth] t e show ?thesis by blast
qed

text \<open>
  Witness for C6: the connection line has been printed, the query fails, the debug flag
  is set, and the manifest lists one file with three statements. The run applies the
  file and ends with exit code 0; the note follows the connection line on the standard
  output and nothing is printed on the standard error.
\<close>

theorem query_failure_fallback_witness:
  "Query (mockExecutor [] (Inl ())) [] (runes ''SELECT version, checksum FROM schema_versions'') =
     (Inl (), []) \<and>
   (\<exists>st. run (Suc 0) \<lparr>Path = runes ''index.lst'', Force = False, Debug = True\<rparr>
        (mockExecutor [] (Inl ())) (\<lambda>c. runes ''X'') example_tree [] [Connected (runes ''u'') (runes ''h'') 9000 (runes ''d'')] =
        Some (0, st) \<and>
      stdout st =
        [Connected (runes ''u'') (runes ''h'') 9000 (runes ''d''), NoteCouldNotQuery (),
         ProcessingFile (runes ''index.lst'') (runes ''.''), AddingSQLFile (runes ''m.sql''),
         ExecutingSQLFile (runes ''m.sql''), ExecutingStatement 1 3, ExecutingStatement 2 3,
         ExecutingStatement 3 3, SuccessfullyExecuted (runes ''m.sql'') 3,
         MigrationComplete 1 0] \<and>
      extends [Connected (runes ''u'') (runes ''h'') 9000 (runes ''d''), NoteCouldNotQuery ()] (stdout st) \<and>
      extends [] (stderr st))"
proof -
  let ?cfg = "\<lparr>Path = runes ''index.lst'', Force = False, Debug = True\<rparr>"
  let ?ex = "mockExecutor [] (Inl ()) :: (gostring list, unit) executor"
  let ?run = "run (Suc 0) ?cfg ?ex (\<lambda>c. runes ''X'') example_tree [] [Connected (runes ''u'') (runes ''h'') 9000 (runes ''d'')]"
  have q: "Query ?ex [] (runes ''SELECT version, checksum FROM schema_versions'') = (Inl (), [])"
    by (simp add: mockExecutor_def)
  have "\<exists>st. ?run = Some (0, st) \<and>
      stdout st =
        [Connected (runes ''u'') (runes ''h'') 9000 (runes ''d''), NoteCouldNotQuery (),
         ProcessingFile (runes ''index.lst'') (runes ''.''), AddingSQLFile (runes ''m.sql''),
         ExecutingSQLFile (runes ''m.sql''), ExecutingStatement 1 3, ExecutingStatement 2 3,
         ExecutingStatement 3 3, SuccessfullyExecuted (runes ''m.sql'') 3,
         MigrationComplete 1 0]"
    apply (simp add: run_def loadApplied_def getAppliedMigrations_def migrate_def tree_files)
    apply (simp add: example_tree_def driver_eval run_eval parse_eval split_eval)
    done
  then obtain st where e: "?run = Some (0, st)" and o: "stdout st =
        [Connected (runes ''u'') (runes ''h'') 9000 (runes ''d''), NoteCouldNotQuery (),
         ProcessingFile (runes ''index.lst'') (runes ''.''), AddingSQLFile (runes ''m.sql''),
         ExecutingSQLFile (runes ''m.sql''), ExecutingStatement 1 3, ExecutingStatement 2 3,
         ExecutingStatement 3 3, SuccessfullyExecuted (runes ''m.sql'') 3,
         MigrationComplete 1 0]" by blast
  from query_failure_fallback [OF q, of ?cfg "[Connected (runes ''u'') (runes ''h'') 9000 (runes ''d'')]" "Suc 0"
      "\<lambda>c. runes ''X''" example_tree] e
  have "extends ([Connected (runes ''u'') (runes ''h'') 9000 (runes ''d'')] @ (if Debug ?cfg then [NoteCouldNotQuery ()] else []))
      (stdout st) \<and> extends [] (stderr st)" by blast
  then have "extends [Connected (runes ''u'') (runes ''h'') 9000 (runes ''d''), NoteCouldNotQuery ()] (stdout st) \<and>
      extends [] (stderr st)" by simp
  with q e o show ?thesis by blast
qed

text \<open>
  Counterexample to C6 as stated: the same run without the debug flag applies the file
  and ends with exit code 0, and nothing it prints on either writer reports the failed
  query.
\<close>

theorem query_failure_silent:
  "Query (mockExecutor [] (Inl ())) [] (runes ''SELECT version, checksum FROM schema_versions'') =
     (Inl (), []) \<and>
   (\<exists>st. run (Suc 0) \<lparr>Path = runes ''index.lst'', Force = False, Debug = False\<rparr>
        (mockExecutor [] (Inl ())) (\<lambda>c. runes ''X'') example_tree [] [Connected (runes ''u'') (runes ''h'') 9000 (runes ''d'')] =
        Some (0, st) \<and>
      stdout st =
        [Connected (runes ''u'') (runes ''h'') 9000 (runes ''d''), ProcessingFile (runes ''index.lst'') (runes ''.''),
         ExecutingSQLFile (runes ''m.sql''), SuccessfullyExecuted (runes ''m.sql'') 3,
         MigrationComplete 1 0] \<and>
      stderr st = [])"
  apply (simp add: run_def loadApplied_def getAppliedMigrations_def migrate_def tree_files)
  apply (simp add: example_tree_def driver_eval run_eval parse_eval split_eval)
  done

end
